theory Spec2Isabelle
  imports Complex_Main "HOL-Library.Word" "HOL-Library.Multiset"
begin

section \<open>The ramp sampler (generateRampTextureData)\<close>

text \<open>
  The sampler reads only the fields \<open>x\<close> and \<open>y\<close> of a \<open>RampPoint\<close>
  (\<^verbatim>\<open>.map(({ x, y }) => ...)\<close>), so a point is modelled by these two coordinates.
  Coordinates are finite numbers, modelled as reals with exact arithmetic: the rounding
  of IEEE doubles is not modelled, and neither are NaN coordinates, for which the
  comparator \<^verbatim>\<open>(a, b) => a.x - b.x\<close> is inconsistent and the order produced by
  \<^verbatim>\<open>Array.prototype.sort\<close> is implementation-defined.
\<close>

datatype RampPoint = RampPoint (px: real) (py: real)

definition RAMP_RESOLUTION :: nat where
  "RAMP_RESOLUTION = 256"

text \<open>\<^verbatim>\<open>const clamp = (value, min = 0, max = 1) => Math.min(Math.max(value, min), max)\<close>\<close>

definition clamp :: "real \<Rightarrow> real \<Rightarrow> real \<Rightarrow> real" where
  "clamp v lo hi = min (max v lo) hi"

text \<open>
  \<^verbatim>\<open>[...points].map(({ x, y }) => ({ x: clamp(x), y: clamp(y) })).sort((a, b) => a.x - b.x)\<close>:
  the copy is sorted, never the argument; \<^verbatim>\<open>sort\<close> is stable, as is \<open>sort_key\<close>
  (insertion sort that puts an element before the first one with a key not smaller).
\<close>

definition clampPoint :: "RampPoint \<Rightarrow> RampPoint" where
  "clampPoint p = RampPoint (clamp (px p) 0 1) (clamp (py p) 0 1)"

definition sortedPoints :: "RampPoint list \<Rightarrow> RampPoint list" where
  "sortedPoints points = sort_key px (map clampPoint points)"

text \<open>
  The flat extension: \<^verbatim>\<open>unshift({ x: 0, y: first.y })\<close> when \<^verbatim>\<open>first.x > 0\<close> and
  \<^verbatim>\<open>push({ x: 1, y: last.y })\<close> when \<^verbatim>\<open>last.x < 1\<close>, where \<open>first\<close> and \<open>last\<close> are
  read from the sorted list before either insertion. The list is not empty here.
\<close>

definition normalizedPoints :: "RampPoint list \<Rightarrow> RampPoint list" where
  "normalizedPoints srt =
     (let first = hd srt;
          lst = last srt;
          n1 = (if px first > 0 then RampPoint 0 (py first) # srt else srt)
      in if px lst < 1 then n1 @ [RampPoint 1 (py lst)] else n1)"

text \<open>
  \<^verbatim>\<open>while (segment < normalized.length - 2 && t > normalized[segment + 1].x) segment += 1\<close>.
  The comparison with \<open>length - 2\<close> is over the integers, as in the source.
\<close>

function advance :: "RampPoint list \<Rightarrow> real \<Rightarrow> nat \<Rightarrow> nat" where
  "advance normalized t segment =
     (if int segment < int (length normalized) - 2 \<and> t > px (normalized ! (segment + 1))
      then advance normalized t (segment + 1)
      else segment)"
  by pat_completeness auto
termination
  by (relation "measure (\<lambda>(normalized, t, segment). length normalized - segment)") auto

declare advance.simps [simp del]

text \<open>
  The body of the \<open>for\<close> loop after the cursor has moved:
  \<^verbatim>\<open>right = normalized[segment + 1] ?? normalized[segment]\<close>,
  \<^verbatim>\<open>span = right.x - left.x || 1\<close> (a zero difference is falsy),
  and the store into the \<open>Uint8Array\<close>, which keeps the integer modulo 256.
\<close>

definition sampleValue :: "RampPoint list \<Rightarrow> real \<Rightarrow> nat \<Rightarrow> real" where
  "sampleValue normalized t segment =
     (let left = normalized ! segment;
          right = (if segment + 1 < length normalized then normalized ! (segment + 1)
                   else normalized ! segment);
          span = (if px right - px left = 0 then 1 else px right - px left);
          ratio = clamp ((t - px left) / span) 0 1
      in clamp (py left + (py right - py left) * ratio) 0 1)"

definition storeByte :: "real \<Rightarrow> 8 word" where
  "storeByte value = word_of_int (round (value * 255))"

text \<open>
  The \<open>for\<close> loop over \<open>index\<close>, with the cursor \<open>segment\<close> carried from one index to the
  next. The model returns, for every index, the cursor used there and the byte stored.
  \<open>t = index / (size - 1)\<close>; every caller passes \<open>size = 256\<close> (for \<open>size = 1\<close> the
  source divides zero by zero, which the reals do not model).
\<close>

function sampleLoop :: "RampPoint list \<Rightarrow> nat \<Rightarrow> nat \<Rightarrow> nat \<Rightarrow> (nat \<times> 8 word) list" where
  "sampleLoop normalized sz index segment =
     (if index < sz then
        (let t = real index / (real sz - 1);
             segment' = advance normalized t segment
         in (segment', storeByte (sampleValue normalized t segment'))
            # sampleLoop normalized sz (index + 1) segment')
      else [])"
  by pat_completeness auto
termination
  by (relation "measure (\<lambda>(normalized, sz, index, segment). sz - index)") auto

declare sampleLoop.simps [simp del]

definition generateRampTextureData :: "RampPoint list \<Rightarrow> nat \<Rightarrow> 8 word list" where
  "generateRampTextureData points sz =
     (if length points = 0 then replicate sz 127
      else map snd (sampleLoop (normalizedPoints (sortedPoints points)) sz 0 0))"

subsection \<open>The sampler as the specification words it\<close>

text \<open>
  A second definition, written from the specification alone and compared with the loop
  above; it uses none of the definitions made from the source. Each point's x and y are
  clamped into \<open>[0, 1]\<close>; the points are sorted by x; if the lowest-x point has
  \<open>x > 0\<close>, a virtual point at \<open>x = 0\<close> with its y is put in front, and symmetrically
  one at \<open>x = 1\<close> after the highest-x point. Then, for \<open>t = i / 255\<close>, the cursor moves
  forward, never back, to the first pair of neighbours \<open>(k, k + 1)\<close> of that sequence
  which brackets \<open>t\<close>; \<open>y\<close> is interpolated by the horizontal ratio clamped to
  \<open>[0, 1]\<close>, a segment of width zero counting as ratio 0; the result is rounded to the
  nearest integer and clamped to \<open>[0, 255]\<close>.
\<close>

definition specClamp01 :: "real \<Rightarrow> real" where
  "specClamp01 v = (if v < 0 then 0 else if 1 < v then 1 else v)"

definition specClamped :: "RampPoint list \<Rightarrow> RampPoint list" where
  "specClamped points = map (\<lambda>p. RampPoint (specClamp01 (px p)) (specClamp01 (py p))) points"

definition specExtended :: "RampPoint list \<Rightarrow> RampPoint list" where
  "specExtended pts =
     (if pts = [] then []
      else (if 0 < px (hd pts) then [RampPoint 0 (py (hd pts))] else [])
           @ pts
           @ (if px (last pts) < 1 then [RampPoint 1 (py (last pts))] else []))"

definition specSequence :: "RampPoint list \<Rightarrow> RampPoint list" where
  "specSequence points = specExtended (sort_key px (specClamped points))"

definition brackets :: "RampPoint list \<Rightarrow> nat \<Rightarrow> real \<Rightarrow> bool" where
  "brackets pts k t = (k + 1 < length pts \<and> px (pts ! k) \<le> t \<and> t \<le> px (pts ! (k + 1)))"

definition specCursor :: "RampPoint list \<Rightarrow> real \<Rightarrow> nat \<Rightarrow> nat" where
  "specCursor pts t c =
     (case find (\<lambda>k. brackets pts k t) [c..<length pts] of Some k \<Rightarrow> k | None \<Rightarrow> c)"

definition specInterpolate :: "RampPoint list \<Rightarrow> real \<Rightarrow> nat \<Rightarrow> int" where
  "specInterpolate pts t k =
     (let left = pts ! k;
          right = pts ! (k + 1);
          ratio = (if px left = px right then 0
                   else specClamp01 ((t - px left) / (px right - px left)))
      in max 0 (min 255 (round ((py left + (py right - py left) * ratio) * 255))))"

fun specEntries :: "RampPoint list \<Rightarrow> real list \<Rightarrow> nat \<Rightarrow> (nat \<times> int) list" where
  "specEntries pts [] c = []"
| "specEntries pts (t # ts) c =
     (let k = specCursor pts t c in (k, specInterpolate pts t k) # specEntries pts ts k)"

definition specLut :: "RampPoint list \<Rightarrow> (nat \<times> int) list" where
  "specLut points = specEntries (specSequence points) (map (\<lambda>i. real i / 255) [0..<256]) 0"

section \<open>JavaScript numbers\<close>

text \<open>
  The capture code computes with \<^verbatim>\<open>number\<close> arguments it receives from its caller, and
  it tests one of them with \<^verbatim>\<open>Number.isFinite\<close>; so the values that are not finite are
  part of the model. Finite values are reals with exact arithmetic: rounding to the nearest
  double, overflow and the sign of zero are not modelled.
\<close>

datatype jsnum = NaN | NegInf | Fin real | PosInf

text \<open>\<^verbatim>\<open>a < b\<close>; every comparison with NaN is false, and \<^verbatim>\<open>a >= b\<close> is
  \<open>\<not> a < b\<close> unless one side is NaN.\<close>

fun js_lt :: "jsnum \<Rightarrow> jsnum \<Rightarrow> bool" where
  "js_lt (Fin a) (Fin b) = (a < b)"
| "js_lt NegInf (Fin b) = True"
| "js_lt NegInf PosInf = True"
| "js_lt (Fin a) PosInf = True"
| "js_lt _ _ = False"

definition js_ge :: "jsnum \<Rightarrow> jsnum \<Rightarrow> bool" where
  "js_ge a b = (a \<noteq> NaN \<and> b \<noteq> NaN \<and> \<not> js_lt a b)"

text \<open>\<^verbatim>\<open>Math.max\<close>, \<^verbatim>\<open>Math.min\<close> and \<^verbatim>\<open>Math.round\<close> return NaN on NaN;
  \<^verbatim>\<open>Math.round\<close> rounds half up, as \<open>round\<close> does, and leaves the infinities.\<close>

definition Math_max :: "jsnum \<Rightarrow> jsnum \<Rightarrow> jsnum" where
  "Math_max a b = (if a = NaN \<or> b = NaN then NaN else if js_lt a b then b else a)"

definition Math_min :: "jsnum \<Rightarrow> jsnum \<Rightarrow> jsnum" where
  "Math_min a b = (if a = NaN \<or> b = NaN then NaN else if js_lt b a then b else a)"

fun Math_round :: "jsnum \<Rightarrow> jsnum" where
  "Math_round (Fin x) = Fin (of_int (round x))"
| "Math_round v = v"

fun Number_isFinite :: "jsnum \<Rightarrow> bool" where
  "Number_isFinite (Fin x) = True"
| "Number_isFinite v = False"

text \<open>The arithmetic operators. A zero divisor is taken as \<open>+0\<close>.\<close>

fun js_neg :: "jsnum \<Rightarrow> jsnum" where
  "js_neg NaN = NaN"
| "js_neg NegInf = PosInf"
| "js_neg (Fin a) = Fin (- a)"
| "js_neg PosInf = NegInf"

fun js_add :: "jsnum \<Rightarrow> jsnum \<Rightarrow> jsnum" where
  "js_add NaN b = NaN"
| "js_add a NaN = NaN"
| "js_add (Fin a) (Fin b) = Fin (a + b)"
| "js_add PosInf NegInf = NaN"
| "js_add NegInf PosInf = NaN"
| "js_add PosInf b = PosInf"
| "js_add a PosInf = PosInf"
| "js_add NegInf b = NegInf"
| "js_add a NegInf = NegInf"

definition js_sub :: "jsnum \<Rightarrow> jsnum \<Rightarrow> jsnum" where
  "js_sub a b = js_add a (js_neg b)"

fun js_mul :: "jsnum \<Rightarrow> jsnum \<Rightarrow> jsnum" where
  "js_mul NaN b = NaN"
| "js_mul a NaN = NaN"
| "js_mul (Fin a) (Fin b) = Fin (a * b)"
| "js_mul (Fin a) PosInf = (if a = 0 then NaN else if 0 < a then PosInf else NegInf)"
| "js_mul (Fin a) NegInf = (if a = 0 then NaN else if 0 < a then NegInf else PosInf)"
| "js_mul PosInf (Fin b) = (if b = 0 then NaN else if 0 < b then PosInf else NegInf)"
| "js_mul NegInf (Fin b) = (if b = 0 then NaN else if 0 < b then NegInf else PosInf)"
| "js_mul PosInf PosInf = PosInf"
| "js_mul NegInf NegInf = PosInf"
| "js_mul PosInf NegInf = NegInf"
| "js_mul NegInf PosInf = NegInf"

fun js_div :: "jsnum \<Rightarrow> jsnum \<Rightarrow> jsnum" where
  "js_div NaN b = NaN"
| "js_div a NaN = NaN"
| "js_div (Fin a) (Fin b) =
     (if b = 0 then (if a = 0 then NaN else if 0 < a then PosInf else NegInf)
      else Fin (a / b))"
| "js_div (Fin a) b = Fin 0"
| "js_div PosInf (Fin b) = (if 0 \<le> b then PosInf else NegInf)"
| "js_div NegInf (Fin b) = (if 0 \<le> b then NegInf else PosInf)"
| "js_div a b = NaN"

section \<open>Animation capture (captureGif)\<close>

text \<open>
  What \<^verbatim>\<open>captureGif\<close> needs from its surroundings: the canvas with its width and height
  (\<^verbatim>\<open>canvasRef.current\<close>), whether the GL state exists, whether the two 2D contexts could
  be obtained, and the library \<^verbatim>\<open>gifenc\<close>, of which only the declarations are part of
  the repository: the length of the index data \<^verbatim>\<open>applyPalette\<close> returns for a frame of the
  target size, and the bytes the encoder holds after \<^verbatim>\<open>finish()\<close> as a function of the
  frames written. Pixel contents (read-back, vertical flip, resampling, palette) are not
  modelled; a frame is what \<^verbatim>\<open>writeFrame\<close> is told about it.
\<close>

text \<open>
  The errors thrown, in the order of the source: \<^verbatim>\<open>"Preview not ready"\<close>,
  \<^verbatim>\<open>"Unable to allocate capture buffer"\<close>, \<^verbatim>\<open>"Unable to allocate scaled buffer"\<close>,
  \<^verbatim>\<open>"Indexed frame has unexpected length"\<close>, \<^verbatim>\<open>"Generated GIF was empty"\<close>.
  A promise is fulfilled, rejected, or not settled yet.
\<close>

datatype capture_error =
    PreviewNotReady | CaptureBufferUnavailable | ScaledBufferUnavailable
  | IndexedFrameLength | GifEmpty

datatype 'a promise = Fulfilled 'a | Rejected capture_error | Unsettled

record gif_frame =
  frameWidth :: jsnum
  frameHeight :: jsnum
  frameDelay :: jsnum
  frameRepeat :: "nat option"

record capture_env =
  canvasSize :: "(nat \<times> nat) option"
  glReady :: bool
  fullCtxOk :: bool
  scaledCtxOk :: bool
  applyPaletteLength :: "jsnum \<Rightarrow> jsnum \<Rightarrow> nat"
  encoderBytes :: "gif_frame list \<Rightarrow> 8 word list"

text \<open>
  The constants computed once at the start of a call:
  \<^verbatim>\<open>sanitizedDuration = Math.max(0.5, duration)\<close>,
  \<^verbatim>\<open>sanitizedFps = Math.min(60, Math.max(1, Math.round(fps)))\<close>,
  \<^verbatim>\<open>sanitizedScale = Math.min(1, Math.max(0.1, Number.isFinite(scale) ? scale : 1))\<close>,
  \<^verbatim>\<open>frameIntervalMs = 1000 / sanitizedFps\<close>,
  \<^verbatim>\<open>frameCount = Math.max(1, Math.round(sanitizedDuration * sanitizedFps))\<close>,
  \<^verbatim>\<open>delayMs = Math.max(0, Math.round(frameIntervalMs))\<close>,
  \<^verbatim>\<open>targetWidth = Math.max(1, Math.round(width * sanitizedScale))\<close>, and the same for the
  height. Each is written as a function of the arguments it depends on.
\<close>

definition sanitizedDuration :: "jsnum \<Rightarrow> jsnum" where
  "sanitizedDuration duration = Math_max (Fin (1/2)) duration"

definition sanitizedFps :: "jsnum \<Rightarrow> jsnum" where
  "sanitizedFps fps = Math_min (Fin 60) (Math_max (Fin 1) (Math_round fps))"

definition sanitizedScale :: "jsnum \<Rightarrow> jsnum" where
  "sanitizedScale scale =
     Math_min (Fin 1) (Math_max (Fin (1/10)) (if Number_isFinite scale then scale else Fin 1))"

definition frameIntervalMs :: "jsnum \<Rightarrow> jsnum" where
  "frameIntervalMs fps = js_div (Fin 1000) (sanitizedFps fps)"

definition frameCount :: "jsnum \<Rightarrow> jsnum \<Rightarrow> jsnum" where
  "frameCount duration fps =
     Math_max (Fin 1) (Math_round (js_mul (sanitizedDuration duration) (sanitizedFps fps)))"

definition delayMs :: "jsnum \<Rightarrow> jsnum" where
  "delayMs fps = Math_max (Fin 0) (Math_round (frameIntervalMs fps))"

definition targetWidth :: "nat \<Rightarrow> jsnum \<Rightarrow> jsnum" where
  "targetWidth width scale =
     Math_max (Fin 1) (Math_round (js_mul (Fin (real width)) (sanitizedScale scale)))"

definition targetHeight :: "nat \<Rightarrow> jsnum \<Rightarrow> jsnum" where
  "targetHeight height scale =
     Math_max (Fin 1) (Math_round (js_mul (Fin (real height)) (sanitizedScale scale)))"

text \<open>
  The variables the callbacks close over: \<open>captured\<close>, \<open>startTime\<close>, \<open>nextCapture\<close> of
  the sampling loop, \<open>frameIndex\<close> of \<^verbatim>\<open>captureFrame\<close>, and the frames the encoder has
  been given.
\<close>

record loop_state =
  captured :: nat
  startTime :: jsnum
  nextCapture :: jsnum
  frameIndex :: nat
  written :: "gif_frame list"

definition initialLoopState :: loop_state where
  "initialLoopState =
     \<lparr>captured = 0, startTime = Fin 0, nextCapture = Fin 0, frameIndex = 0, written = []\<rparr>"

text \<open>
  \<^verbatim>\<open>captureFrame\<close>: throws when the index data has not one entry per target pixel, else
  writes one frame with the delay and, on the first frame only, \<^verbatim>\<open>repeat: 0\<close>.
\<close>

definition captureFrame ::
  "capture_env \<Rightarrow> nat \<Rightarrow> nat \<Rightarrow> jsnum \<Rightarrow> jsnum \<Rightarrow> loop_state \<Rightarrow> capture_error + loop_state" where
  "captureFrame env width height fps scale st =
     (if Fin (real (applyPaletteLength env (targetWidth width scale) (targetHeight height scale)))
          \<noteq> js_mul (targetWidth width scale) (targetHeight height scale)
      then Inl IndexedFrameLength
      else Inr (st\<lparr>written := written st @
                      [\<lparr>frameWidth = targetWidth width scale,
                        frameHeight = targetHeight height scale,
                        frameDelay = delayMs fps,
                        frameRepeat = (if frameIndex st = 0 then Some 0 else None)\<rparr>],
                    frameIndex := frameIndex st + 1\<rparr>))"

text \<open>
  The two tests of \<^verbatim>\<open>step\<close>: \<^verbatim>\<open>captured >= frameCount\<close> and
  \<^verbatim>\<open>now - startTime >= sanitizedDuration * 1000 + frameIntervalMs\<close>.
\<close>

definition framesDone :: "jsnum \<Rightarrow> jsnum \<Rightarrow> loop_state \<Rightarrow> bool" where
  "framesDone duration fps st = js_ge (Fin (real (captured st))) (frameCount duration fps)"

definition deadlineReached :: "jsnum \<Rightarrow> jsnum \<Rightarrow> real \<Rightarrow> loop_state \<Rightarrow> bool" where
  "deadlineReached duration fps now st =
     js_ge (js_sub (Fin now) (startTime st))
           (js_add (js_mul (sanitizedDuration duration) (Fin 1000)) (frameIntervalMs fps))"

text \<open>
  One call of \<^verbatim>\<open>step(now)\<close>. It ends by resolving the promise, by asking for the next
  tick, or by an exception of \<^verbatim>\<open>captureFrame\<close> that leaves the callback: then nothing is
  scheduled and the promise stays unsettled.
\<close>

datatype step_result = Resolve loop_state | Reschedule loop_state | Uncaught capture_error loop_state

definition stepEnd :: "jsnum \<Rightarrow> jsnum \<Rightarrow> real \<Rightarrow> loop_state \<Rightarrow> step_result" where
  "stepEnd duration fps now st =
     (if framesDone duration fps st \<or> deadlineReached duration fps now st
      then Resolve st else Reschedule st)"

definition step ::
  "capture_env \<Rightarrow> nat \<Rightarrow> nat \<Rightarrow> jsnum \<Rightarrow> jsnum \<Rightarrow> jsnum \<Rightarrow> real \<Rightarrow> loop_state \<Rightarrow> step_result" where
  "step env width height duration fps scale now st =
     (if framesDone duration fps st then Resolve st
      else
        (let st1 = (if captured st = 0 then st\<lparr>startTime := Fin now, nextCapture := Fin now\<rparr>
                    else st)
         in if js_ge (Fin now) (nextCapture st1)
            then (case captureFrame env width height fps scale st1 of
                    Inl e \<Rightarrow> Uncaught e st1
                  | Inr st2 \<Rightarrow>
                      stepEnd duration fps now
                        (st2\<lparr>captured := captured st2 + 1,
                            nextCapture := js_add (nextCapture st2) (frameIntervalMs fps)\<rparr>))
            else stepEnd duration fps now st1))"

text \<open>
  The loop over the timestamps that the host passes to the successive callbacks. A finite
  list stands for the ticks delivered so far: when it is used up and the promise is not
  resolved, the loop is waiting for the next tick. \<open>Resolved\<close> keeps the ticks it did not
  consume.
\<close>

datatype loop_outcome =
    Resolved loop_state "real list" | AwaitingTick loop_state | Crashed capture_error loop_state

fun samplingLoop ::
  "capture_env \<Rightarrow> nat \<Rightarrow> nat \<Rightarrow> jsnum \<Rightarrow> jsnum \<Rightarrow> jsnum \<Rightarrow> loop_state \<Rightarrow> real list \<Rightarrow> loop_outcome" where
  "samplingLoop env width height duration fps scale st [] = AwaitingTick st"
| "samplingLoop env width height duration fps scale st (now # rest) =
     (case step env width height duration fps scale now st of
        Resolve st' \<Rightarrow> Resolved st' rest
      | Reschedule st' \<Rightarrow> samplingLoop env width height duration fps scale st' rest
      | Uncaught e st' \<Rightarrow> Crashed e st')"

definition outcomeState :: "loop_outcome \<Rightarrow> loop_state" where
  "outcomeState out =
     (case out of Resolved st rest \<Rightarrow> st | AwaitingTick st \<Rightarrow> st | Crashed e st \<Rightarrow> st)"

text \<open>
  The whole call. The width and height are read from the canvas once, before the loop
  starts. After the loop the encoder is finished and an empty buffer is an error.
\<close>

definition captureGif ::
  "capture_env \<Rightarrow> jsnum \<Rightarrow> jsnum \<Rightarrow> jsnum \<Rightarrow> real list \<Rightarrow> (8 word list) promise" where
  "captureGif env duration fps scale ticks =
     (case canvasSize env of
        None \<Rightarrow> Rejected PreviewNotReady
      | Some (width, height) \<Rightarrow>
          if \<not> glReady env then Rejected PreviewNotReady
          else if \<not> fullCtxOk env then Rejected CaptureBufferUnavailable
          else if \<not> scaledCtxOk env then Rejected ScaledBufferUnavailable
          else (case samplingLoop env width height duration fps scale initialLoopState ticks of
                  Resolved st rest \<Rightarrow>
                    (let bytes = encoderBytes env (written st)
                     in if length bytes = 0 then Rejected GifEmpty else Fulfilled bytes)
                | AwaitingTick st \<Rightarrow> Unsettled
                | Crashed e st \<Rightarrow> Unsettled))"

text \<open>
  An environment in which every collaborator does its part, used for the closed examples:
  index data with one entry per pixel, and an encoder that returns a byte for every frame.
\<close>

definition exampleEnv :: "nat \<Rightarrow> nat \<Rightarrow> capture_env" where
  "exampleEnv w h =
     \<lparr>canvasSize = Some (w, h), glReady = True, fullCtxOk = True, scaledCtxOk = True,
      applyPaletteLength = (\<lambda>tw th. case js_mul tw th of Fin x \<Rightarrow> nat \<lfloor>x\<rfloor> | _ \<Rightarrow> 0),
      encoderBytes = (\<lambda>fs. replicate (length fs) 1)\<rparr>"

subsection \<open>The quantities of a call with finite arguments\<close>

text \<open>
  For a finite duration \<open>d\<close> and a finite rate \<open>f\<close> the constants are real numbers; these
  are the formulas the specification gives for them.
\<close>

definition durationOf :: "real \<Rightarrow> real" where
  "durationOf d = max (1/2) d"

definition fpsOf :: "real \<Rightarrow> real" where
  "fpsOf f = min 60 (max 1 (of_int (round f)))"

definition intervalOf :: "real \<Rightarrow> real" where
  "intervalOf f = 1000 / fpsOf f"

definition countOf :: "real \<Rightarrow> real \<Rightarrow> nat" where
  "countOf d f = nat (max 1 (round (durationOf d * fpsOf f)))"

definition deadlineOf :: "real \<Rightarrow> real \<Rightarrow> real" where
  "deadlineOf d f = durationOf d * 1000 + intervalOf f"

text \<open>The effective scale is finite for every argument.\<close>

definition scaleOf :: "jsnum \<Rightarrow> real" where
  "scaleOf scale = (case scale of Fin x \<Rightarrow> min 1 (max (1/10) x) | _ \<Rightarrow> 1)"

subsection \<open>Predicates of the statements and proofs\<close>

text \<open>
  \<open>indexDataFits\<close>: \<^verbatim>\<open>applyPalette\<close> returns one index for each pixel of the target
  frame, so that the length check of \<^verbatim>\<open>captureFrame\<close> passes.
  \<open>running\<close>: the state of a loop that has captured at least one frame and not yet all
  of them, for finite arguments. \<open>frameSized\<close>: every frame written has the given size.
\<close>

definition indexDataFits :: "capture_env \<Rightarrow> nat \<Rightarrow> nat \<Rightarrow> jsnum \<Rightarrow> bool" where
  "indexDataFits env width height scale =
     (Fin (real (applyPaletteLength env (targetWidth width scale) (targetHeight height scale)))
        = js_mul (targetWidth width scale) (targetHeight height scale))"

definition running :: "real \<Rightarrow> real \<Rightarrow> real \<Rightarrow> loop_state \<Rightarrow> bool" where
  "running d f t0 st =
     (startTime st = Fin t0 \<and> Number_isFinite (nextCapture st) \<and> 1 \<le> captured st \<and>
      captured st < countOf d f \<and> length (written st) = captured st)"

definition frameSized :: "jsnum \<Rightarrow> jsnum \<Rightarrow> loop_state \<Rightarrow> bool" where
  "frameSized tw th st = (\<forall>f \<in> set (written st). frameWidth f = tw \<and> frameHeight f = th)"

section \<open>The render loop (render)\<close>

text \<open>
  \<^verbatim>\<open>render(time)\<close> is the callback of \<^verbatim>\<open>requestAnimationFrame\<close>; \<open>time\<close> is the
  timestamp the host passes. Each uniform is written only if its location was found.
  The texture upload and the draw call are not modelled.
\<close>

record uniform_locations =
  locIntensityX :: bool
  locIntensityY :: bool
  locWaveAmount :: bool
  locTime :: bool

record uniform_values =
  uIntensityX :: real
  uIntensityY :: real
  uWaveAmount :: real
  uTime :: real

record render_refs =
  intensityXRef :: real
  intensityYRef :: real
  waveIntensityRef :: real

definition render ::
  "uniform_locations \<Rightarrow> render_refs \<Rightarrow> real \<Rightarrow> uniform_values \<Rightarrow> uniform_values" where
  "render uniforms refs time u =
     (let u1 = (if locIntensityX uniforms then u\<lparr>uIntensityX := intensityXRef refs\<rparr> else u);
          u2 = (if locIntensityY uniforms then u1\<lparr>uIntensityY := intensityYRef refs\<rparr> else u1);
          u3 = (if locWaveAmount uniforms then u2\<lparr>uWaveAmount := waveIntensityRef refs\<rparr> else u2)
      in if locTime uniforms then u3\<lparr>uTime := time * 0.001\<rparr> else u3)"

text \<open>
  One instance of the loop, from the \<^verbatim>\<open>requestAnimationFrame(render)\<close> of the
  initialisation to the \<^verbatim>\<open>cancelAnimationFrame\<close> of the clean-up: the ticks it receives,
  each with its timestamp and the values the refs hold then, and the uniforms after each.
\<close>

fun renderLoop ::
  "uniform_locations \<Rightarrow> uniform_values \<Rightarrow> (real \<times> render_refs) list \<Rightarrow> uniform_values list" where
  "renderLoop uniforms u [] = []"
| "renderLoop uniforms u ((time, refs) # rest) =
     render uniforms refs time u # renderLoop uniforms (render uniforms refs time u) rest"

text \<open>Locations, refs and initial uniforms for the closed examples.\<close>

definition exampleLocations :: uniform_locations where
  "exampleLocations = \<lparr>locIntensityX = True, locIntensityY = True, locWaveAmount = True, locTime = True\<rparr>"

definition exampleRefs :: render_refs where
  "exampleRefs = \<lparr>intensityXRef = 1/2, intensityYRef = 1/2, waveIntensityRef = 1/4\<rparr>"

definition exampleUniforms :: uniform_values where
  "exampleUniforms = \<lparr>uIntensityX = 0, uIntensityY = 0, uWaveAmount = 0, uTime = 0\<rparr>"

section \<open>Properties of the ramp sampler\<close>

subsection \<open>Unfolding the loops\<close>

lemma advance_stop:
  "\<not> (int segment < int (length normalized) - 2 \<and> t > px (normalized ! (segment + 1)))
   \<Longrightarrow> advance normalized t segment = segment"
  by (subst advance.simps) auto

lemma advance_step:
  "int segment < int (length normalized) - 2 \<Longrightarrow> t > px (normalized ! (segment + 1))
   \<Longrightarrow> advance normalized t segment = advance normalized t (segment + 1)"
  by (subst advance.simps) simp

lemma advance_ge: "segment \<le> advance normalized t segment"
proof (induction normalized t segment rule: advance.induct)
  case (1 normalized t segment)
  show ?case
  proof (cases "int segment < int (length normalized) - 2 \<and> t > px (normalized ! (segment + 1))")
    case True
    with 1 show ?thesis by (simp add: advance_step)
  next
    case False
    then show ?thesis by (simp add: advance_stop)
  qed
qed

lemma advance_brackets:
  assumes "px (last normalized) = 1" and "t \<le> 1"
    and "segment + 1 < length normalized" and "px (normalized ! segment) \<le> t"
  shows "brackets normalized (advance normalized t segment) t \<and>
         (\<forall>j. segment \<le> j \<and> j < advance normalized t segment \<longrightarrow> \<not> brackets normalized j t)"
  using assms
proof (induction normalized t segment rule: advance.induct)
  case (1 normalized t segment)
  show ?case
  proof (cases "int segment < int (length normalized) - 2 \<and> t > px (normalized ! (segment + 1))")
    case True
    then have st: "advance normalized t segment = advance normalized t (segment + 1)"
      by (simp add: advance_step)
    from True have "segment + 1 + 1 < length normalized" "px (normalized ! (segment + 1)) \<le> t"
      by auto
    with 1 True have ih: "brackets normalized (advance normalized t (segment + 1)) t \<and>
         (\<forall>j. segment + 1 \<le> j \<and> j < advance normalized t (segment + 1) \<longrightarrow> \<not> brackets normalized j t)"
      by blast
    have "\<not> brackets normalized segment t"
      using True by (simp add: brackets_def)
    with ih st show ?thesis
      by (metis Suc_eq_plus1 Suc_leI le_neq_implies_less)
  next
    case False
    then have st: "advance normalized t segment = segment"
      by (simp add: advance_stop)
    have "t \<le> px (normalized ! (segment + 1))"
    proof (cases "t > px (normalized ! (segment + 1))")
      case True
      with False have "\<not> int segment < int (length normalized) - 2" by simp
      with "1.prems" have "segment + 1 = length normalized - 1" by linarith
      then have "normalized ! (segment + 1) = last normalized"
        using "1.prems" by (metis last_conv_nth length_0_conv less_nat_zero_code)
      with "1.prems" show ?thesis by simp
    next
      case False
      then show ?thesis by simp
    qed
    with "1.prems" st show ?thesis by (simp add: brackets_def)
  qed
qed

lemma find_upt_first:
  assumes "c \<le> k" "k < n" "P k" "\<forall>j. c \<le> j \<and> j < k \<longrightarrow> \<not> P j"
  shows "find P [c..<n] = Some k"
proof -
  have "\<exists>i<length [c..<n]. P ([c..<n] ! i) \<and> k = [c..<n] ! i \<and> (\<forall>j<i. \<not> P ([c..<n] ! j))"
    using assms by (intro exI[of _ "k - c"]) auto
  then show ?thesis by (simp only: find_Some_iff)
qed

lemma specCursor_advance:
  assumes "px (last normalized) = 1" and "t \<le> 1"
    and "segment + 1 < length normalized" and "px (normalized ! segment) \<le> t"
  shows "specCursor normalized t segment = advance normalized t segment"
proof -
  let ?k = "advance normalized t segment"
  from advance_brackets[OF assms]
  have b: "brackets normalized ?k t"
    and f: "\<forall>j. segment \<le> j \<and> j < ?k \<longrightarrow> \<not> brackets normalized j t" by auto
  from b have "?k < length normalized" by (simp add: brackets_def)
  with b f advance_ge[of segment normalized t]
  have "find (\<lambda>k. brackets normalized k t) [segment..<length normalized] = Some ?k"
    by (intro find_upt_first) auto
  then show ?thesis by (simp add: specCursor_def)
qed

lemma clamp_specClamp01: "clamp v 0 1 = specClamp01 v"
  by (simp add: clamp_def specClamp01_def)

lemma round_clamp_255:
  "round (clamp v 0 1 * 255) = max 0 (min 255 (round (v * 255)))"
proof -
  consider "v \<le> 0" | "0 < v \<and> v < 1" | "1 \<le> v" by linarith
  then show ?thesis
  proof cases
    case 1
    then have "v * 255 \<le> 0" by simp
    then have "round (v * 255) \<le> round (0::real)" by (rule round_mono)
    with 1 show ?thesis by (simp add: clamp_def)
  next
    case 2
    then have "0 \<le> v * 255" "v * 255 \<le> 255" by simp_all
    then have "round (0::real) \<le> round (v * 255)" "round (v * 255) \<le> round (255::real)"
      by (simp_all only: round_mono)
    then have "0 \<le> round (v * 255)" "round (v * 255) \<le> 255" by simp_all
    moreover have "clamp v 0 1 = v" using 2 by (simp add: clamp_def)
    ultimately show ?thesis by simp
  next
    case 3
    then have "255 \<le> v * 255" by simp
    then have "round (255::real) \<le> round (v * 255)" by (rule round_mono)
    with 3 show ?thesis by (simp add: clamp_def)
  qed
qed

lemma uint_storeByte_clamp:
  "uint (storeByte (clamp v 0 1)) = max 0 (min 255 (round (v * 255)))"
proof -
  let ?z = "max 0 (min 255 (round (v * 255)))"
  have z: "0 \<le> ?z" "?z < 2 ^ LENGTH(8)" by simp_all
  have "uint (word_of_int ?z :: 8 word) = ?z"
    using z by (simp only: uint_word_of_int mod_pos_pos_trivial)
  then show ?thesis by (simp add: storeByte_def round_clamp_255)
qed

lemma sampleValue_spec:
  assumes "brackets normalized k t"
  shows "uint (storeByte (sampleValue normalized t k)) = specInterpolate normalized t k"
proof -
  let ?l = "normalized ! k" and ?r = "normalized ! (k + 1)"
  from assms have k: "k + 1 < length normalized" and l: "px ?l \<le> t" and r: "t \<le> px ?r"
    by (simp_all add: brackets_def)
  show ?thesis
  proof (cases "px ?l = px ?r")
    case True
    with l r have "t = px ?l" by simp
    moreover have "clamp 0 0 1 = 0" by (simp add: clamp_def)
    ultimately show ?thesis using True k
      by (simp add: sampleValue_def specInterpolate_def Let_def uint_storeByte_clamp)
  next
    case False
    with k show ?thesis
      by (simp add: sampleValue_def specInterpolate_def Let_def uint_storeByte_clamp
          clamp_specClamp01 [symmetric])
  qed
qed


lemma sampleLoop_unfold:
  "index < sz \<Longrightarrow> sampleLoop normalized sz index segment =
     (advance normalized (real index / (real sz - 1)) segment,
      storeByte (sampleValue normalized (real index / (real sz - 1))
         (advance normalized (real index / (real sz - 1)) segment)))
     # sampleLoop normalized sz (index + 1) (advance normalized (real index / (real sz - 1)) segment)"
  by (subst sampleLoop.simps) (simp add: Let_def)

lemma sampleLoop_done: "\<not> index < sz \<Longrightarrow> sampleLoop normalized sz index segment = []"
  by (subst sampleLoop.simps) simp

lemma tick_mono:
  assumes "2 \<le> sz"
  shows "real index / (real sz - 1) \<le> real (index + 1) / (real sz - 1)"
proof -
  have "0 < real sz - 1" using assms by simp
  then show ?thesis by (simp add: divide_le_cancel)
qed

lemma tick_le_1:
  assumes "2 \<le> sz" "index < sz"
  shows "real index / (real sz - 1) \<le> 1"
proof -
  have "0 < real sz - 1" using assms by simp
  moreover have "real index \<le> real sz - 1" using assms by linarith
  ultimately show ?thesis by simp
qed

lemma sampleLoop_spec:
  assumes "px (last normalized) = 1" and "2 \<le> sz"
    and "segment + 1 < length normalized"
    and "px (normalized ! segment) \<le> real index / (real sz - 1)"
  shows "map (\<lambda>(k, b). (k, uint b)) (sampleLoop normalized sz index segment) =
         specEntries normalized (map (\<lambda>i. real i / (real sz - 1)) [index..<sz]) segment"
  using assms
proof (induction normalized sz index segment rule: sampleLoop.induct)
  case (1 normalized sz index segment)
  show ?case
  proof (cases "index < sz")
    case False
    then show ?thesis by (simp add: sampleLoop_done)
  next
    case True
    let ?t = "real index / (real sz - 1)"
    let ?k = "advance normalized ?t segment"
    have t1: "?t \<le> 1" using True "1.prems" by (simp add: tick_le_1)
    have br: "brackets normalized ?k ?t"
      using advance_brackets[of normalized ?t segment] "1.prems" t1 by simp
    have cur: "specCursor normalized ?t segment = ?k"
      using specCursor_advance[of normalized ?t segment] "1.prems" t1 by simp
    have val: "uint (storeByte (sampleValue normalized ?t ?k)) = specInterpolate normalized ?t ?k"
      using br by (rule sampleValue_spec)
    from br have k: "?k + 1 < length normalized" and kt: "px (normalized ! ?k) \<le> ?t"
      by (simp_all add: brackets_def)
    have "px (normalized ! ?k) \<le> real (index + 1) / (real sz - 1)"
      using kt tick_mono[of sz index] "1.prems" by linarith
    with 1 True k
    have ih: "map (\<lambda>(k, b). (k, uint b)) (sampleLoop normalized sz (index + 1) ?k) =
         specEntries normalized (map (\<lambda>i. real i / (real sz - 1)) [index + 1..<sz]) ?k"
      by blast
    have "[index..<sz] = index # [index + 1..<sz]"
      using True by (simp add: upt_conv_Cons)
    then show ?thesis
      using True cur val ih by (simp add: sampleLoop_unfold Let_def)
  qed
qed

lemma sampleLoop_brackets:
  assumes "px (last normalized) = 1" and "2 \<le> sz"
    and "segment + 1 < length normalized"
    and "px (normalized ! segment) \<le> real index / (real sz - 1)"
  shows "\<forall>j. index + j < sz \<longrightarrow>
           brackets normalized (fst (sampleLoop normalized sz index segment ! j))
             (real (index + j) / (real sz - 1))"
  using assms
proof (induction normalized sz index segment rule: sampleLoop.induct)
  case (1 normalized sz index segment)
  show ?case
  proof (intro allI impI)
    fix j assume j: "index + j < sz"
    then have True: "index < sz" by simp
    let ?t = "real index / (real sz - 1)"
    let ?k = "advance normalized ?t segment"
    have t1: "?t \<le> 1" using True "1.prems" by (simp add: tick_le_1)
    have br: "brackets normalized ?k ?t"
      using advance_brackets[of normalized ?t segment] "1.prems" t1 by simp
    from br have k: "?k + 1 < length normalized" and kt: "px (normalized ! ?k) \<le> ?t"
      by (simp_all add: brackets_def)
    have "px (normalized ! ?k) \<le> real (index + 1) / (real sz - 1)"
      using kt tick_mono[of sz index] "1.prems" by linarith
    with 1 True k
    have ih: "\<forall>j. index + 1 + j < sz \<longrightarrow>
           brackets normalized (fst (sampleLoop normalized sz (index + 1) ?k ! j))
             (real (index + 1 + j) / (real sz - 1))"
      by blast
    show "brackets normalized (fst (sampleLoop normalized sz index segment ! j))
             (real (index + j) / (real sz - 1))"
    proof (cases j)
      case 0
      with br True show ?thesis by (simp add: sampleLoop_unfold)
    next
      case (Suc j')
      with j have "index + 1 + j' < sz" by simp
      with ih have "brackets normalized (fst (sampleLoop normalized sz (index + 1) ?k ! j'))
             (real (index + 1 + j') / (real sz - 1))" by blast
      with Suc True show ?thesis by (simp add: sampleLoop_unfold)
    qed
  qed
qed

lemma sampleLoop_cursor_mono:
  "sorted (map fst (sampleLoop normalized sz index segment)) \<and>
   (\<forall>k \<in> set (map fst (sampleLoop normalized sz index segment)). segment \<le> k)"
proof (induction normalized sz index segment rule: sampleLoop.induct)
  case (1 normalized sz index segment)
  show ?case
  proof (cases "index < sz")
    case False
    then show ?thesis by (simp add: sampleLoop_done)
  next
    case True
    let ?k = "advance normalized (real index / (real sz - 1)) segment"
    from 1 True
    have ih: "sorted (map fst (sampleLoop normalized sz (index + 1) ?k)) \<and>
       (\<forall>k \<in> set (map fst (sampleLoop normalized sz (index + 1) ?k)). ?k \<le> k)"
      by blast
    have "segment \<le> ?k" by (rule advance_ge)
    with ih True show ?thesis
      by (auto simp add: sampleLoop_unfold)
  qed
qed

subsection \<open>Shape of the extended sequence\<close>

lemma clampPoint_range: "0 \<le> px (clampPoint p) \<and> px (clampPoint p) \<le> 1"
  by (simp add: clampPoint_def clamp_def)

lemma sortedPoints_range:
  "p \<in> set (sortedPoints points) \<Longrightarrow> 0 \<le> px p \<and> px p \<le> 1"
  by (auto simp add: sortedPoints_def clampPoint_range)

lemma sortedPoints_nonempty: "points \<noteq> [] \<Longrightarrow> sortedPoints points \<noteq> []"
  by (metis length_0_conv length_map length_sort sortedPoints_def)

lemma normalizedPoints_shape:
  assumes "srt \<noteq> []" and "\<forall>p \<in> set srt. 0 \<le> px p \<and> px p \<le> 1"
  shows "2 \<le> length (normalizedPoints srt) \<and> px (normalizedPoints srt ! 0) = 0 \<and>
         px (last (normalizedPoints srt)) = 1"
proof -
  have h: "0 \<le> px (hd srt)" and l: "px (last srt) \<le> 1"
    using assms by simp_all
  have hd0: "srt ! 0 = hd srt" using assms(1) by (simp add: hd_conv_nth)
  have len: "2 \<le> length (normalizedPoints srt)"
  proof (cases "length srt = 1")
    case True
    then have "hd srt = last srt"
      by (metis One_nat_def hd_conv_nth last_conv_nth assms(1) diff_self_eq_0)
    then have "px (hd srt) > 0 \<or> px (last srt) < 1" by auto
    with True show ?thesis by (auto simp add: normalizedPoints_def Let_def)
  next
    case False
    with assms(1) have "2 \<le> length srt"
      by (cases srt) (auto simp add: Suc_le_eq)
    then show ?thesis by (simp add: normalizedPoints_def Let_def)
  qed
  have first: "px (normalizedPoints srt ! 0) = 0"
    using h hd0 assms(1) by (auto simp add: normalizedPoints_def Let_def nth_append)
  have lst: "px (last (normalizedPoints srt)) = 1"
    using l assms(1) by (auto simp add: normalizedPoints_def Let_def)
  from len first lst show ?thesis by simp
qed

lemma normalized_shape:
  assumes "points \<noteq> []"
  shows "2 \<le> length (normalizedPoints (sortedPoints points)) \<and>
         px (normalizedPoints (sortedPoints points) ! 0) = 0 \<and>
         px (last (normalizedPoints (sortedPoints points))) = 1"
  using assms sortedPoints_nonempty sortedPoints_range
  by (intro normalizedPoints_shape) auto

subsection \<open>The sequence of the loop is the sequence of the specification\<close>

lemma clampPoint_spec:
  "clampPoint p = RampPoint (specClamp01 (px p)) (specClamp01 (py p))"
  by (simp add: clampPoint_def clamp_specClamp01)

lemma sortedPoints_spec: "sortedPoints points = sort_key px (specClamped points)"
proof -
  have "clampPoint = (\<lambda>p. RampPoint (specClamp01 (px p)) (specClamp01 (py p)))"
    by (rule ext) (rule clampPoint_spec)
  then show ?thesis by (simp add: sortedPoints_def specClamped_def)
qed

lemma normalizedPoints_spec: "srt \<noteq> [] \<Longrightarrow> normalizedPoints srt = specExtended srt"
  by (simp add: normalizedPoints_def specExtended_def Let_def)

lemma normalized_is_specSequence:
  "points \<noteq> [] \<Longrightarrow> normalizedPoints (sortedPoints points) = specSequence points"
  using sortedPoints_nonempty[of points]
  by (simp add: normalizedPoints_spec specSequence_def sortedPoints_spec [symmetric])

lemma specClamp01_range: "0 \<le> specClamp01 v \<and> specClamp01 v \<le> 1"
  by (simp add: specClamp01_def)

lemma specClamped_range:
  "p \<in> set (specClamped points) \<Longrightarrow>
   0 \<le> px p \<and> px p \<le> 1 \<and> 0 \<le> py p \<and> py p \<le> 1"
  by (auto simp add: specClamped_def specClamp01_range)

lemma specExtended_range:
  assumes "\<forall>p \<in> set pts. 0 \<le> px p \<and> px p \<le> 1 \<and> 0 \<le> py p \<and> py p \<le> 1"
    and "q \<in> set (specExtended pts)"
  shows "0 \<le> px q \<and> px q \<le> 1 \<and> 0 \<le> py q \<and> py q \<le> 1"
proof (cases "pts = []")
  case True
  with assms(2) show ?thesis by (simp add: specExtended_def)
next
  case False
  then have "hd pts \<in> set pts" "last pts \<in> set pts" by simp_all
  with assms(1) have "0 \<le> py (hd pts) \<and> py (hd pts) \<le> 1" "0 \<le> py (last pts) \<and> py (last pts) \<le> 1"
    by blast+
  with assms False show ?thesis
    by (auto simp add: specExtended_def split: if_splits)
qed

lemma specExtended_sorted:
  assumes "sorted (map px pts)" and "\<forall>p \<in> set pts. 0 \<le> px p \<and> px p \<le> 1"
  shows "sorted (map px (specExtended pts))"
  using assms by (auto simp add: specExtended_def sorted_append)

lemma specSequence_range:
  "q \<in> set (specSequence points) \<Longrightarrow>
   0 \<le> px q \<and> px q \<le> 1 \<and> 0 \<le> py q \<and> py q \<le> 1"
proof -
  assume q: "q \<in> set (specSequence points)"
  have "\<forall>p \<in> set (sort_key px (specClamped points)).
          0 \<le> px p \<and> px p \<le> 1 \<and> 0 \<le> py p \<and> py p \<le> 1"
    using specClamped_range by simp
  from specExtended_range[OF this] q show ?thesis by (simp add: specSequence_def)
qed

lemma specSequence_sorted: "sorted (map px (specSequence points))"
proof -
  have "sorted (map px (sort_key px (specClamped points)))" by (rule sorted_sort_key)
  moreover have "\<forall>p \<in> set (sort_key px (specClamped points)). 0 \<le> px p \<and> px p \<le> 1"
    using specClamped_range by simp
  ultimately show ?thesis unfolding specSequence_def by (rule specExtended_sorted)
qed

lemma hd_generate:
  "points \<noteq> [] \<Longrightarrow> 0 < sz \<Longrightarrow> generateRampTextureData points sz ! 0 =
     storeByte (sampleValue (normalizedPoints (sortedPoints points)) 0
        (advance (normalizedPoints (sortedPoints points)) 0 0))"
  by (simp add: generateRampTextureData_def sampleLoop_unfold)

subsection \<open>Length and range of the table\<close>

lemma length_sampleLoop: "length (sampleLoop normalized sz index segment) = sz - index"
proof (induction normalized sz index segment rule: sampleLoop.induct)
  case (1 normalized sz index segment)
  show ?case
  proof (cases "index < sz")
    case True
    with 1 show ?thesis by (simp add: sampleLoop_unfold)
  next
    case False
    then show ?thesis by (simp add: sampleLoop_done)
  qed
qed

lemma length_generateRampTextureData: "length (generateRampTextureData points sz) = sz"
  by (simp add: generateRampTextureData_def length_sampleLoop)

lemma uint_byte_range: "0 \<le> uint (e :: 8 word) \<and> uint e \<le> 255"
proof -
  have "uint e < 2 ^ LENGTH(8)" by (rule uint_bounded)
  then show ?thesis by simp
qed

text \<open>
  Claim C3. For every input collection of control points (empty, unsorted, with
  duplicate x, with coordinates outside \<open>[0, 1]\<close>) the table returned for size 256 has
  exactly 256 entries, and every entry is a byte between 0 and 255.
\<close>

theorem C3_lut_length_and_byte_range:
  "length (generateRampTextureData points RAMP_RESOLUTION) = 256 \<and>
   (\<forall>i < 256. 0 \<le> uint (generateRampTextureData points RAMP_RESOLUTION ! i) \<and>
               uint (generateRampTextureData points RAMP_RESOLUTION ! i) \<le> 255)"
  by (simp add: length_generateRampTextureData RAMP_RESOLUTION_def uint_byte_range)

theorem C3_witness:
  "length (generateRampTextureData [RampPoint 3 (-2), RampPoint (1/2) 7, RampPoint (1/2) 0]
      RAMP_RESOLUTION) = 256 \<and>
   (0::nat) < 256 \<and>
   uint (generateRampTextureData [RampPoint 3 (-2), RampPoint (1/2) 7, RampPoint (1/2) 0]
      RAMP_RESOLUTION ! 0) \<le> 255"
  using C3_lut_length_and_byte_range
    [of "[RampPoint 3 (-2), RampPoint (1/2) 7, RampPoint (1/2) 0]"]
  by simp

text \<open>
  Claim C4. The ramp sampler applied to the empty collection of control points returns a
  lookup table of 256 entries, every one of them equal to 127.
\<close>

theorem C4_empty_input_flat_127:
  "generateRampTextureData [] RAMP_RESOLUTION = replicate 256 127"
  by (simp add: generateRampTextureData_def RAMP_RESOLUTION_def)

subsection \<open>Order of the input\<close>

lemma sortedPoints_cong:
  assumes "mset qs = mset ps"
    and "\<And>k. filter (\<lambda>p. clamp (px p) 0 1 = k) qs = filter (\<lambda>p. clamp (px p) 0 1 = k) ps"
  shows "sortedPoints qs = sortedPoints ps"
proof -
  let ?f = "px"
  let ?xs = "map clampPoint ps" and ?ys = "map clampPoint qs"
  have m: "mset (sort_key ?f ?ys) = mset ?xs"
    using assms(1) by (metis mset_map mset_sort)
  have fl: "filter (\<lambda>x. ?f k = ?f x) (sort_key ?f ?ys) = filter (\<lambda>x. ?f k = ?f x) ?xs" for k
  proof -
    have "filter (\<lambda>x. ?f x = ?f k) (sort_key ?f ?ys) = filter (\<lambda>x. ?f x = ?f k) ?ys"
      by (rule sort_key_stable)
    also have "\<dots> = map clampPoint (filter (\<lambda>p. clamp (px p) 0 1 = ?f k) qs)"
      by (simp add: filter_map comp_def clampPoint_def)
    also have "\<dots> = map clampPoint (filter (\<lambda>p. clamp (px p) 0 1 = ?f k) ps)"
      by (simp add: assms(2))
    also have "\<dots> = filter (\<lambda>x. ?f x = ?f k) ?xs"
      by (simp add: filter_map comp_def clampPoint_def)
    finally show ?thesis by (simp add: eq_commute)
  qed
  have "sort_key ?f ?xs = sort_key ?f ?ys"
    by (rule properties_for_sort_key) (use m fl in simp_all)
  then show ?thesis by (simp add: sortedPoints_def)
qed

text \<open>With pairwise different clamped x every permutation gives the same table.\<close>

lemma filter_key_short:
  "distinct (map f ps) \<Longrightarrow> length (filter (\<lambda>p. f p = k) ps) \<le> 1"
proof (induction ps)
  case Nil
  then show ?case by simp
next
  case (Cons a ps)
  show ?case
  proof (cases "f a = k")
    case True
    with Cons.prems have "k \<notin> f ` set ps" by simp
    then have "\<forall>p \<in> set ps. f p \<noteq> k" by blast
    then have "filter (\<lambda>p. f p = k) ps = []" by (simp add: filter_empty_conv)
    with True show ?thesis by simp
  next
    case False
    with Cons show ?thesis by simp
  qed
qed

lemma mset_eq_short:
  assumes "mset xs = mset ys" and "length ys \<le> 1"
  shows "xs = ys"
proof -
  from assms(1) have len: "length xs = length ys" by (rule mset_eq_length)
  show ?thesis
  proof (cases ys)
    case Nil
    with len show ?thesis by simp
  next
    case (Cons b bs)
    with assms(2) have ys: "ys = [b]" by simp
    with len obtain a where xs: "xs = [a]" by (cases xs) auto
    from assms(1) xs ys have "a = b" by simp
    with xs ys show ?thesis by simp
  qed
qed

lemma distinct_x_permutation_same_lut:
  assumes "mset qs = mset ps"
    and "distinct (map (\<lambda>p. clamp (px p) 0 1) ps)"
  shows "generateRampTextureData qs sz = generateRampTextureData ps sz"
proof -
  have "filter (\<lambda>p. clamp (px p) 0 1 = k) qs = filter (\<lambda>p. clamp (px p) 0 1 = k) ps" for k
  proof (rule mset_eq_short)
    show "mset (filter (\<lambda>p. clamp (px p) 0 1 = k) qs) = mset (filter (\<lambda>p. clamp (px p) 0 1 = k) ps)"
      using assms(1) by (simp only: mset_filter)
    show "length (filter (\<lambda>p. clamp (px p) 0 1 = k) ps) \<le> 1"
      using assms(2) by (rule filter_key_short)
  qed
  then have "sortedPoints qs = sortedPoints ps"
    using assms(1) by (intro sortedPoints_cong) auto
  moreover have "(length qs = 0) = (length ps = 0)"
    using assms(1) by (metis mset_eq_length)
  ultimately show ?thesis by (simp add: generateRampTextureData_def)
qed

text \<open>
  Claim C5, as stated: the table depends only on the multiset of points, so every
  permutation of the input gives the same table, also with duplicate x. The sort is
  stable and compares x alone: two points with the same x and different y, exchanged,
  give different tables. Here entry 0 is 0 for one order and 255 for the other.
\<close>

theorem C5_counterexample:
  "mset [RampPoint (1/2) 1, RampPoint (1/2) 0] = mset [RampPoint (1/2) 0, RampPoint (1/2) 1] \<and>
   generateRampTextureData [RampPoint (1/2) 0, RampPoint (1/2) 1] 256 ! 0 = 0 \<and>
   generateRampTextureData [RampPoint (1/2) 1, RampPoint (1/2) 0] 256 ! 0 = 255 \<and>
   generateRampTextureData [RampPoint (1/2) 1, RampPoint (1/2) 0] 256 \<noteq>
   generateRampTextureData [RampPoint (1/2) 0, RampPoint (1/2) 1] 256"
proof -
  have a: "generateRampTextureData [RampPoint (1/2) 0, RampPoint (1/2) 1] 256 ! 0 = 0"
    by (simp add: hd_generate sortedPoints_def clampPoint_def clamp_def normalizedPoints_def
        advance_stop sampleValue_def storeByte_def)
  have b: "generateRampTextureData [RampPoint (1/2) 1, RampPoint (1/2) 0] 256 ! 0 = 255"
    by (simp add: hd_generate sortedPoints_def clampPoint_def clamp_def normalizedPoints_def
        advance_stop sampleValue_def storeByte_def)
  have c: "mset [RampPoint (1/2) 1, RampPoint (1/2) 0] = mset [RampPoint (1/2) 0, RampPoint (1/2) 1]"
    by simp
  have "(255 :: 8 word) \<noteq> 0" by simp
  with a b have "generateRampTextureData [RampPoint (1/2) 1, RampPoint (1/2) 0] 256 \<noteq>
     generateRampTextureData [RampPoint (1/2) 0, RampPoint (1/2) 1] 256"
    by metis
  with a b c show ?thesis by blast
qed

text \<open>
  Claim C5, amended. The sampler is a function of its input list (the same list gives the
  same table, and the argument is only read). A permutation of the input gives the same
  table whenever it keeps the relative order of the points whose clamped x coincide; in
  particular whenever the clamped x are pairwise different.
\<close>

theorem C5_order_preserving_permutation_same_lut:
  assumes "mset qs = mset ps"
    and "\<forall>k. filter (\<lambda>p. clamp (px p) 0 1 = k) qs = filter (\<lambda>p. clamp (px p) 0 1 = k) ps"
  shows "generateRampTextureData qs sz = generateRampTextureData ps sz"
proof -
  have "sortedPoints qs = sortedPoints ps"
    using assms by (intro sortedPoints_cong) auto
  moreover have "(length qs = 0) = (length ps = 0)"
    using assms(1) by (metis mset_eq_length)
  ultimately show ?thesis by (simp add: generateRampTextureData_def)
qed

theorem C5_witness:
  "generateRampTextureData [RampPoint (7/10) (9/10), RampPoint (1/5) (3/10), RampPoint (7/10) (1/10)] 256 =
   generateRampTextureData [RampPoint (1/5) (3/10), RampPoint (7/10) (9/10), RampPoint (7/10) (1/10)] 256"
proof -
  have m: "mset [RampPoint (7/10) (9/10), RampPoint (1/5) (3/10), RampPoint (7/10) (1/10)] =
           mset [RampPoint (1/5) (3/10), RampPoint (7/10) (9/10), RampPoint (7/10) (1/10)]"
    by simp
  have f: "\<forall>k. filter (\<lambda>p. clamp (px p) 0 1 = k)
                 [RampPoint (7/10) (9/10), RampPoint (1/5) (3/10), RampPoint (7/10) (1/10)] =
               filter (\<lambda>p. clamp (px p) 0 1 = k)
                 [RampPoint (1/5) (3/10), RampPoint (7/10) (9/10), RampPoint (7/10) (1/10)]"
    by (auto simp add: clamp_def)
  from C5_order_preserving_permutation_same_lut [OF m f] show ?thesis .
qed

subsection \<open>The loop against the specification's wording\<close>

text \<open>
  A closed run: four points given out of order, two of them left of 0 (clamped onto the
  same x, so the sequence begins with a segment of width zero), two on the same x, one
  with y above 1. The first three entries of the table are evaluated step by step.
\<close>

lemma specEntries_nth_0:
  "specEntries pts (t # ts) c ! 0 = (specCursor pts t c, specInterpolate pts t (specCursor pts t c))"
  by (simp add: Let_def)

lemma specEntries_nth_Suc:
  "specEntries pts (t # ts) c ! Suc i = specEntries pts ts (specCursor pts t c) ! i"
  by (simp add: Let_def)

lemma first_ticks:
  "map (\<lambda>i. real i / 255) [0..<256] = 0 # (1/255) # (2/255) # map (\<lambda>i. real i / 255) [3..<256]"
proof -
  have "[0..<256] = [0..<3] @ [3..<256]"
    using upt_add_eq_append[of 0 3 253] by simp
  moreover have "[0..<3] = [0, 1, 2]"
    by (simp add: upt_rec)
  ultimately show ?thesis by simp
qed

lemma example_sequence:
  "specSequence [RampPoint (1/170) (9/10), RampPoint (-1) (3/10), RampPoint (1/170) (1/10),
                 RampPoint (-2) 7] =
   [RampPoint 0 (3/10), RampPoint 0 1, RampPoint (1/170) (9/10), RampPoint (1/170) (1/10),
    RampPoint 1 (1/10)]"
  by (simp add: specSequence_def specClamped_def specClamp01_def specExtended_def)

lemma example_cursors:
  "specCursor [RampPoint 0 (3/10), RampPoint 0 1, RampPoint (1/170) (9/10),
               RampPoint (1/170) (1/10), RampPoint 1 (1/10)] 0 0 = 0"
  "specCursor [RampPoint 0 (3/10), RampPoint 0 1, RampPoint (1/170) (9/10),
               RampPoint (1/170) (1/10), RampPoint 1 (1/10)] (1/255) 0 = 1"
  "specCursor [RampPoint 0 (3/10), RampPoint 0 1, RampPoint (1/170) (9/10),
               RampPoint (1/170) (1/10), RampPoint 1 (1/10)] (2/255) 1 = 3"
  by (simp_all add: specCursor_def brackets_def upt_rec)

lemma example_values:
  "specInterpolate [RampPoint 0 (3/10), RampPoint 0 1, RampPoint (1/170) (9/10),
                    RampPoint (1/170) (1/10), RampPoint 1 (1/10)] 0 0 = 77"
  "specInterpolate [RampPoint 0 (3/10), RampPoint 0 1, RampPoint (1/170) (9/10),
                    RampPoint (1/170) (1/10), RampPoint 1 (1/10)] (1/255) 1 = 238"
  "specInterpolate [RampPoint 0 (3/10), RampPoint 0 1, RampPoint (1/170) (9/10),
                    RampPoint (1/170) (1/10), RampPoint 1 (1/10)] (2/255) 3 = 26"
  by (simp_all add: specInterpolate_def specClamp01_def Let_def round_def)

lemma example_entries:
  "specLut [RampPoint (1/170) (9/10), RampPoint (-1) (3/10), RampPoint (1/170) (1/10),
            RampPoint (-2) 7] ! 0 = (0, 77)"
  "specLut [RampPoint (1/170) (9/10), RampPoint (-1) (3/10), RampPoint (1/170) (1/10),
            RampPoint (-2) 7] ! Suc 0 = (1, 238)"
  "specLut [RampPoint (1/170) (9/10), RampPoint (-1) (3/10), RampPoint (1/170) (1/10),
            RampPoint (-2) 7] ! Suc (Suc 0) = (3, 26)"
  by (simp_all only: specLut_def example_sequence first_ticks specEntries_nth_0
      specEntries_nth_Suc example_cursors example_values)

text \<open>
  Claim C6. For every non-empty input: the sequence the loop walks is the clamped,
  sorted, flat-extended point sequence of the specification (its coordinates lie in
  \<open>[0, 1]\<close>, its x never decrease, it begins at \<open>x = 0\<close> and ends at \<open>x = 1\<close>); the
  trace of the loop (cursor and stored value at every index \<open>i\<close>, \<open>t = i / 255\<close>) is the
  one the specification describes on that sequence, and the table returned holds its
  values; the cursor never decreases; and at every index the cursor's pair brackets \<open>t\<close>.
\<close>

theorem C6_cursor_interpolation_refines_spec:
  assumes "points \<noteq> []"
  shows "normalizedPoints (sortedPoints points) = specSequence points \<and>
         (\<forall>q \<in> set (specSequence points).
            0 \<le> px q \<and> px q \<le> 1 \<and> 0 \<le> py q \<and> py q \<le> 1) \<and>
         sorted (map px (specSequence points)) \<and>
         2 \<le> length (specSequence points) \<and>
         px (hd (specSequence points)) = 0 \<and> px (last (specSequence points)) = 1 \<and>
         generateRampTextureData points RAMP_RESOLUTION =
           map snd (sampleLoop (normalizedPoints (sortedPoints points)) 256 0 0) \<and>
         map uint (generateRampTextureData points RAMP_RESOLUTION) = map snd (specLut points) \<and>
         map (\<lambda>(k, b). (k, uint b)) (sampleLoop (normalizedPoints (sortedPoints points)) 256 0 0) =
           specLut points \<and>
         sorted (map fst (sampleLoop (normalizedPoints (sortedPoints points)) 256 0 0)) \<and>
         sorted (map fst (specLut points)) \<and>
         (\<forall>i < 256. brackets (specSequence points) (fst (specLut points ! i)) (real i / 255))"
proof -
  let ?n = "normalizedPoints (sortedPoints points)"
  have eq: "?n = specSequence points" using assms by (rule normalized_is_specSequence)
  from normalized_shape[OF assms]
  have len: "0 + 1 < length ?n" and first: "px (?n ! 0) \<le> real 0 / (real 256 - 1)"
    and lst: "px (last ?n) = 1" and len2: "2 \<le> length ?n" and first0: "px (?n ! 0) = 0"
    by simp_all
  from len have "?n \<noteq> []" by auto
  then have "hd ?n = ?n ! 0" by (simp add: hd_conv_nth)
  with first0 have hd0: "px (hd ?n) = 0" by simp
  have rng: "\<forall>q \<in> set (specSequence points).
            0 \<le> px q \<and> px q \<le> 1 \<and> 0 \<le> py q \<and> py q \<le> 1"
    using specSequence_range by blast
  have srt: "sorted (map px (specSequence points))" by (rule specSequence_sorted)
  have a: "generateRampTextureData points RAMP_RESOLUTION = map snd (sampleLoop ?n 256 0 0)"
    using assms by (simp add: generateRampTextureData_def RAMP_RESOLUTION_def)
  have b: "map (\<lambda>(k, b). (k, uint b)) (sampleLoop ?n 256 0 0) = specLut points"
    using sampleLoop_spec[OF lst _ len first] by (simp add: specLut_def eq)
  have "map uint (map snd (sampleLoop ?n 256 0 0)) =
        map snd (map (\<lambda>(k, b). (k, uint b)) (sampleLoop ?n 256 0 0))"
    by (simp add: comp_def case_prod_beta)
  with a b have a': "map uint (generateRampTextureData points RAMP_RESOLUTION) = map snd (specLut points)"
    by simp
  have c: "sorted (map fst (sampleLoop ?n 256 0 0))"
    using sampleLoop_cursor_mono[of ?n 256 0 0] by blast
  have "map fst (map (\<lambda>(k, b). (k, uint b)) (sampleLoop ?n 256 0 0)) = map fst (sampleLoop ?n 256 0 0)"
    by (simp add: comp_def case_prod_beta)
  with b c have c': "sorted (map fst (specLut points))" by simp
  have d: "\<forall>i < 256. brackets ?n (fst (sampleLoop ?n 256 0 0 ! i)) (real i / 255)"
    using sampleLoop_brackets[OF lst _ len first] by simp
  have d': "\<forall>i < 256. brackets (specSequence points) (fst (specLut points ! i)) (real i / 255)"
  proof (intro allI impI)
    fix i :: nat assume i: "i < 256"
    have l: "length (sampleLoop ?n 256 0 0) = 256" by (simp add: length_sampleLoop)
    have "fst (specLut points ! i) = fst (sampleLoop ?n 256 0 0 ! i)"
      using i l by (simp add: b [symmetric] case_prod_beta)
    with d i eq show "brackets (specSequence points) (fst (specLut points ! i)) (real i / 255)"
      by simp
  qed
  from eq rng srt len2 hd0 lst a a' b c c' d' show ?thesis by simp
qed

theorem C6_witness:
  "[RampPoint (1/170) (9/10), RampPoint (-1) (3/10), RampPoint (1/170) (1/10), RampPoint (-2) 7]
     \<noteq> [] \<and>
   normalizedPoints (sortedPoints
       [RampPoint (1/170) (9/10), RampPoint (-1) (3/10), RampPoint (1/170) (1/10), RampPoint (-2) 7]) =
     [RampPoint 0 (3/10), RampPoint 0 1, RampPoint (1/170) (9/10), RampPoint (1/170) (1/10),
      RampPoint 1 (1/10)] \<and>
   uint (generateRampTextureData
       [RampPoint (1/170) (9/10), RampPoint (-1) (3/10), RampPoint (1/170) (1/10), RampPoint (-2) 7]
       RAMP_RESOLUTION ! 0) = 77 \<and>
   uint (generateRampTextureData
       [RampPoint (1/170) (9/10), RampPoint (-1) (3/10), RampPoint (1/170) (1/10), RampPoint (-2) 7]
       RAMP_RESOLUTION ! Suc 0) = 238 \<and>
   uint (generateRampTextureData
       [RampPoint (1/170) (9/10), RampPoint (-1) (3/10), RampPoint (1/170) (1/10), RampPoint (-2) 7]
       RAMP_RESOLUTION ! Suc (Suc 0)) = 26 \<and>
   map fst (take 3 (sampleLoop (normalizedPoints (sortedPoints
       [RampPoint (1/170) (9/10), RampPoint (-1) (3/10), RampPoint (1/170) (1/10), RampPoint (-2) 7]))
       256 0 0)) = [0, 1, 3] \<and>
   brackets [RampPoint 0 (3/10), RampPoint 0 1, RampPoint (1/170) (9/10), RampPoint (1/170) (1/10),
      RampPoint 1 (1/10)] 0 0 \<and>
   brackets [RampPoint 0 (3/10), RampPoint 0 1, RampPoint (1/170) (9/10), RampPoint (1/170) (1/10),
      RampPoint 1 (1/10)] 1 (1/255) \<and>
   brackets [RampPoint 0 (3/10), RampPoint 0 1, RampPoint (1/170) (9/10), RampPoint (1/170) (1/10),
      RampPoint 1 (1/10)] 3 (2/255)"
proof -
  let ?pts = "[RampPoint (1/170) (9/10), RampPoint (-1) (3/10), RampPoint (1/170) (1/10),
               RampPoint (-2) 7]"
  let ?S = "[RampPoint 0 (3/10), RampPoint 0 1, RampPoint (1/170) (9/10), RampPoint (1/170) (1/10),
             RampPoint 1 (1/10)]"
  let ?trace = "sampleLoop (normalizedPoints (sortedPoints ?pts)) 256 0 0"
  have ne: "?pts \<noteq> []" by simp
  note c6 = C6_cursor_interpolation_refines_spec [OF ne]
  from c6 have seq: "normalizedPoints (sortedPoints ?pts) = specSequence ?pts"
    by (elim conjE)
  from c6 have tab: "map uint (generateRampTextureData ?pts RAMP_RESOLUTION) = map snd (specLut ?pts)"
    by (elim conjE)
  from c6 have tr: "map (\<lambda>(k, b). (k, uint b)) ?trace = specLut ?pts"
    by (elim conjE)
  from c6 have br: "\<forall>i < 256. brackets (specSequence ?pts) (fst (specLut ?pts ! i)) (real i / 255)"
    by (elim conjE)
  have n: "normalizedPoints (sortedPoints ?pts) = ?S"
    by (simp only: seq example_sequence)
  have len: "length (generateRampTextureData ?pts RAMP_RESOLUTION) = 256"
    by (simp add: length_generateRampTextureData RAMP_RESOLUTION_def)
  have lenT: "length ?trace = 256" by (simp add: length_sampleLoop)
  have lenS: "length (specLut ?pts) = 256"
    using lenT arg_cong[OF tr, of length] by simp
  have nth: "uint (generateRampTextureData ?pts RAMP_RESOLUTION ! i) = snd (specLut ?pts ! i)"
    if "i < 256" for i
  proof -
    have "map uint (generateRampTextureData ?pts RAMP_RESOLUTION) ! i = map snd (specLut ?pts) ! i"
      by (simp only: tab)
    then show ?thesis using that len lenS by simp
  qed
  have cur: "fst (?trace ! i) = fst (specLut ?pts ! i)" if "i < 256" for i
    using that lenT by (simp add: tr [symmetric] case_prod_beta)
  have u0: "uint (generateRampTextureData ?pts RAMP_RESOLUTION ! 0) = 77"
    using nth[of 0] by (simp add: example_entries)
  have u1: "uint (generateRampTextureData ?pts RAMP_RESOLUTION ! Suc 0) = 238"
    using nth[of "Suc 0"] by (simp add: example_entries)
  have u2: "uint (generateRampTextureData ?pts RAMP_RESOLUTION ! Suc (Suc 0)) = 26"
    using nth[of "Suc (Suc 0)"] by (simp add: example_entries)
  have k0: "fst (?trace ! 0) = 0"
    using cur[of 0] by (simp add: example_entries)
  have k1: "fst (?trace ! Suc 0) = 1"
    using cur[of "Suc 0"] by (simp add: example_entries)
  have k2: "fst (?trace ! Suc (Suc 0)) = 3"
    using cur[of "Suc (Suc 0)"] by (simp add: example_entries)
  have "take 3 ?trace = [?trace ! 0, ?trace ! Suc 0, ?trace ! Suc (Suc 0)]"
    using lenT by (simp add: take_Suc_conv_app_nth numeral_3_eq_3)
  with k0 k1 k2 have ks: "map fst (take 3 ?trace) = [0, 1, 3]" by simp
  have b0: "brackets ?S 0 0"
    using br [rule_format, of 0] by (simp add: example_sequence example_entries)
  have b1: "brackets ?S 1 (1/255)"
    using br [rule_format, of "Suc 0"] by (simp add: example_sequence example_entries)
  have b2: "brackets ?S 3 (2/255)"
    using br [rule_format, of "Suc (Suc 0)"] by (simp add: example_sequence example_entries)
  from ne n u0 u1 u2 ks b0 b1 b2 show ?thesis by (intro conjI)
qed

section \<open>Properties of the animation capture\<close>

subsection \<open>The sanitized arguments\<close>

lemma sanitizedScale_scaleOf: "sanitizedScale scale = Fin (scaleOf scale)"
  by (cases scale) (auto simp add: sanitizedScale_def Math_max_def Math_min_def scaleOf_def)

lemma scaleOf_range: "1/10 \<le> scaleOf scale \<and> scaleOf scale \<le> 1"
  by (cases scale) (auto simp add: scaleOf_def)

lemma sanitizedDuration_Fin: "sanitizedDuration (Fin d) = Fin (durationOf d)"
  by (auto simp add: sanitizedDuration_def Math_max_def durationOf_def)

lemma sanitizedFps_Fin: "sanitizedFps (Fin f) = Fin (fpsOf f)"
  by (auto simp add: sanitizedFps_def Math_max_def Math_min_def fpsOf_def)

lemma fpsOf_range: "1 \<le> fpsOf f \<and> fpsOf f \<le> 60"
  by (simp add: fpsOf_def)

lemma fpsOf_integer: "\<exists>n. fpsOf f = of_int n \<and> 1 \<le> n \<and> n \<le> 60"
proof -
  have "fpsOf f = of_int (min 60 (max 1 (round f)))"
    by (simp add: fpsOf_def)
  then show ?thesis by (intro exI[of _ "min 60 (max 1 (round f))"]) simp
qed

lemma frameIntervalMs_Fin: "frameIntervalMs (Fin f) = Fin (intervalOf f)"
  using fpsOf_range[of f] by (simp add: frameIntervalMs_def sanitizedFps_Fin intervalOf_def)

lemma frameCount_Fin: "frameCount (Fin d) (Fin f) = Fin (real (countOf d f))"
  by (auto simp add: frameCount_def sanitizedFps_Fin sanitizedDuration_Fin Math_max_def countOf_def)

lemma countOf_pos: "1 \<le> countOf d f"
  by (simp add: countOf_def)

lemma sanitizedFps_1000: "sanitizedFps (Fin 1000) = sanitizedFps (Fin 60)"
  by (simp add: sanitizedFps_Fin fpsOf_def)

lemma sanitizedFps_half: "sanitizedFps (Fin (25/2)) = sanitizedFps (Fin 13)"
  by (simp add: sanitizedFps_Fin fpsOf_def round_def)

lemma sanitizedScale_5: "sanitizedScale (Fin 5) = sanitizedScale (Fin 1)"
  by (simp add: sanitizedScale_def Math_max_def Math_min_def)

lemma sanitizedDuration_0: "sanitizedDuration (Fin 0) = sanitizedDuration (Fin (1/2))"
  by (simp add: sanitizedDuration_def Math_max_def)

text \<open>
  The loop, and with it the whole call, depends on its three arguments only through their
  sanitized values: a rate of 1000 behaves as 60, a scale of 5 as 1, a duration of 0 as
  0.5, and a rate of 12.5 as 13.
\<close>

lemma step_sanitized:
  assumes "sanitizedDuration d = sanitizedDuration d'" and "sanitizedFps f = sanitizedFps f'"
    and "sanitizedScale s = sanitizedScale s'"
  shows "step env width height d f s now st = step env width height d' f' s' now st"
proof -
  have fc: "frameCount d f = frameCount d' f'"
    using assms by (simp add: frameCount_def)
  have fi: "frameIntervalMs f = frameIntervalMs f'"
    using assms by (simp add: frameIntervalMs_def)
  have fd: "\<And>x. framesDone d f x = framesDone d' f' x"
    using fc by (simp add: framesDone_def)
  have dr: "\<And>t x. deadlineReached d f t x = deadlineReached d' f' t x"
    using fi assms(1) by (simp add: deadlineReached_def)
  have se: "\<And>t x. stepEnd d f t x = stepEnd d' f' t x"
    using fd dr by (simp add: stepEnd_def)
  have cf: "\<And>x. captureFrame env width height f s x = captureFrame env width height f' s' x"
    using fi assms(3) by (simp add: captureFrame_def delayMs_def targetWidth_def targetHeight_def)
  show ?thesis
    unfolding step_def fd se cf fi ..
qed

lemma samplingLoop_sanitized:
  assumes "sanitizedDuration d = sanitizedDuration d'" and "sanitizedFps f = sanitizedFps f'"
    and "sanitizedScale s = sanitizedScale s'"
  shows "samplingLoop env width height d f s st ticks = samplingLoop env width height d' f' s' st ticks"
  by (induction ticks arbitrary: st)
    (simp_all add: step_sanitized[OF assms] split: step_result.splits)

lemma captureGif_sanitized:
  assumes "sanitizedDuration d = sanitizedDuration d'" and "sanitizedFps f = sanitizedFps f'"
    and "sanitizedScale s = sanitizedScale s'"
  shows "captureGif env d f s ticks = captureGif env d' f' s' ticks"
  by (simp add: captureGif_def samplingLoop_sanitized[OF assms] split: option.splits prod.splits)

lemma captureGif_clamping_examples:
  "captureGif env d (Fin 1000) s ticks = captureGif env d (Fin 60) s ticks"
  "captureGif env d f (Fin 5) ticks = captureGif env d f (Fin 1) ticks"
  "captureGif env (Fin 0) f s ticks = captureGif env (Fin (1/2)) f s ticks"
  "captureGif env d (Fin (25/2)) s ticks = captureGif env d (Fin 13) s ticks"
  by (rule captureGif_sanitized; simp add: sanitizedFps_1000 sanitizedScale_5 sanitizedDuration_0
      sanitizedFps_half)+

text \<open>
  Claim C2. \<^verbatim>\<open>captureGif\<close> is to clamp every argument: the effective rate lies in
  \<open>[1, 60]\<close> for every \<open>fps\<close>. The scale is guarded by \<^verbatim>\<open>Number.isFinite\<close>, the rate is
  not: for \<open>fps = NaN\<close> the effective rate is NaN, neither at least 1 nor at most 60
  (while a NaN scale becomes 1).
\<close>

theorem C2_nan_fps_not_clamped:
  "sanitizedFps NaN = NaN \<and> \<not> js_ge (sanitizedFps NaN) (Fin 1) \<and>
   \<not> js_ge (Fin 60) (sanitizedFps NaN) \<and> sanitizedScale NaN = Fin 1"
  by (simp add: sanitizedFps_def sanitizedScale_def Math_max_def Math_min_def js_ge_def)

text \<open>
  Claim C10. The effective rate from which \<open>frameIntervalMs\<close> and \<open>frameCount\<close> are
  derived is to be an integer for every \<open>fps\<close>. For finite \<open>fps\<close> it is
  (\<open>fpsOf_integer\<close>, \<open>sanitizedFps_half\<close>); for \<open>fps = NaN\<close> the rate is not a finite
  number and the interval, the frame count and the frame delay are NaN.
\<close>

theorem C10_nan_fps_no_integer_rate:
  "frameIntervalMs NaN = NaN \<and> frameCount (Fin 2) NaN = NaN \<and> delayMs NaN = NaN \<and>
   \<not> Number_isFinite (sanitizedFps NaN)"
  by (simp add: frameIntervalMs_def frameCount_def delayMs_def sanitizedFps_def
      sanitizedDuration_def Math_max_def Math_min_def)

text \<open>With a NaN rate neither test of \<open>step\<close> ever holds: the promise is never resolved.\<close>

lemma nan_fps_step_never_resolves:
  "step env width height duration NaN scale now st \<noteq> Resolve st'"
proof -
  have fc: "frameCount duration NaN = NaN"
    by (cases "sanitizedDuration duration")
      (simp_all add: frameCount_def sanitizedFps_def Math_max_def Math_min_def)
  have fi: "frameIntervalMs NaN = NaN"
    by (simp add: frameIntervalMs_def sanitizedFps_def Math_max_def Math_min_def)
  have nd: "\<not> framesDone duration NaN s" for s
    by (simp add: framesDone_def fc js_ge_def)
  have "js_add a NaN = NaN" for a by (cases a) simp_all
  then have dl: "\<not> deadlineReached duration NaN now s" for s
    by (simp add: deadlineReached_def fi js_ge_def)
  have "stepEnd duration NaN now s = Reschedule s" for s
    using nd dl by (simp add: stepEnd_def)
  then show ?thesis
    using nd by (simp add: step_def Let_def split: sum.splits)
qed

lemma nan_fps_loop_never_resolves:
  "samplingLoop env width height duration NaN scale st ticks \<noteq> Resolved st' rest"
proof (induction ticks arbitrary: st)
  case Nil
  then show ?case by simp
next
  case (Cons now ticks)
  then show ?case
    using nan_fps_step_never_resolves[of env width height duration scale now st]
    by (cases "step env width height duration NaN scale now st") simp_all
qed

text \<open>
  The same holds for an infinite duration: the frame count and the time bound are
  infinite, and a loop started at a finite time never resolves.
\<close>

lemma infinite_duration_never_done:
  "frameCount PosInf (Fin f) = PosInf \<and>
   js_add (js_mul (sanitizedDuration PosInf) (Fin 1000)) (frameIntervalMs (Fin f)) = PosInf"
  using fpsOf_range[of f]
  by (simp add: frameCount_def sanitizedDuration_def sanitizedFps_Fin frameIntervalMs_Fin
      Math_max_def)


lemma infinite_duration_step:
  assumes "Number_isFinite (startTime st)"
  shows "step env width height PosInf (Fin f) scale now st \<noteq> Resolve st' \<and>
         (step env width height PosInf (Fin f) scale now st = Reschedule st'
            \<longrightarrow> Number_isFinite (startTime st'))"
proof -
  from assms obtain t0 where t0: "startTime st = Fin t0"
    by (cases "startTime st") simp_all
  note inf = infinite_duration_never_done[of f]
  have nd: "\<not> framesDone PosInf (Fin f) s" for s
    using inf by (simp add: framesDone_def js_ge_def)
  have dl: "\<not> deadlineReached PosInf (Fin f) now s" if "Number_isFinite (startTime s)" for s
  proof -
    from that obtain t where "startTime s = Fin t" by (cases "startTime s") simp_all
    then show ?thesis using inf by (simp add: deadlineReached_def js_ge_def js_sub_def)
  qed
  have se: "stepEnd PosInf (Fin f) now s = Reschedule s" if "Number_isFinite (startTime s)" for s
    using nd dl[OF that] by (simp add: stepEnd_def)
  let ?st1 = "if captured st = 0 then st\<lparr>startTime := Fin now, nextCapture := Fin now\<rparr> else st"
  have f1: "Number_isFinite (startTime ?st1)" using assms by simp
  show ?thesis
  proof (cases "js_ge (Fin now) (nextCapture ?st1)")
    case False
    with nd se[OF f1] f1 show ?thesis by (auto simp add: step_def Let_def)
  next
    case True
    show ?thesis
    proof (cases "captureFrame env width height (Fin f) scale ?st1")
      case (Inl e)
      with nd True show ?thesis by (simp add: step_def Let_def)
    next
      case (Inr st2)
      let ?st3 = "st2\<lparr>captured := captured st2 + 1,
                      nextCapture := js_add (nextCapture st2) (frameIntervalMs (Fin f))\<rparr>"
      from Inr have "startTime st2 = startTime ?st1"
        by (auto simp add: captureFrame_def split: if_splits)
      with f1 have "Number_isFinite (startTime ?st3)" by simp
      from se[OF this] this nd True Inr show ?thesis
        by (auto simp add: step_def Let_def)
    qed
  qed
qed

lemma infinite_duration_loop_never_resolves:
  "Number_isFinite (startTime st) \<Longrightarrow>
   samplingLoop env width height PosInf (Fin f) scale st ticks \<noteq> Resolved st' rest"
proof (induction ticks arbitrary: st)
  case Nil
  then show ?case by simp
next
  case (Cons now ticks)
  from infinite_duration_step[OF Cons.prems, of env width height f scale now]
  show ?case
    using Cons.IH
    by (cases "step env width height PosInf (Fin f) scale now st") auto
qed

subsection \<open>Size of the captured frames\<close>

lemma targetWidth_scaleOf:
  "targetWidth width scale = Fin (of_int (max 1 (round (real width * scaleOf scale))))"
  by (auto simp add: targetWidth_def sanitizedScale_scaleOf Math_max_def)

lemma targetHeight_scaleOf:
  "targetHeight height scale = Fin (of_int (max 1 (round (real height * scaleOf scale))))"
  by (auto simp add: targetHeight_def sanitizedScale_scaleOf Math_max_def)

lemma captureFrame_sized:
  assumes "captureFrame env width height fps scale st = Inr st'"
    and "frameSized (targetWidth width scale) (targetHeight height scale) st"
  shows "frameSized (targetWidth width scale) (targetHeight height scale) st'"
  using assms by (auto simp add: captureFrame_def frameSized_def split: if_splits)

lemma stepEnd_state:
  "stepEnd duration fps now st = Resolve st' \<or> stepEnd duration fps now st = Reschedule st'
   \<or> stepEnd duration fps now st = Uncaught e st' \<Longrightarrow> st' = st"
  by (auto simp add: stepEnd_def split: if_splits)

lemma step_sized:
  assumes "step env width height duration fps scale now st = Resolve st' \<or>
           step env width height duration fps scale now st = Reschedule st' \<or>
           step env width height duration fps scale now st = Uncaught e st'"
    and "frameSized (targetWidth width scale) (targetHeight height scale) st"
  shows "frameSized (targetWidth width scale) (targetHeight height scale) st'"
proof -
  let ?st1 = "if captured st = 0 then st\<lparr>startTime := Fin now, nextCapture := Fin now\<rparr> else st"
  have s1: "frameSized (targetWidth width scale) (targetHeight height scale) ?st1"
    using assms(2) by (simp add: frameSized_def)
  show ?thesis
  proof (cases "framesDone duration fps st")
    case True
    with assms show ?thesis by (simp add: step_def)
  next
    case nd: False
    show ?thesis
    proof (cases "js_ge (Fin now) (nextCapture ?st1)")
      case False
      with nd assms(1) have "st' = ?st1"
        using stepEnd_state[of duration fps now ?st1 st' e]
        by (simp add: step_def Let_def)
      with s1 show ?thesis by simp
    next
      case True
      show ?thesis
      proof (cases "captureFrame env width height fps scale ?st1")
        case (Inl err)
        with nd True assms(1) have "st' = ?st1" by (simp add: step_def Let_def)
        with s1 show ?thesis by simp
      next
        case (Inr st2)
        let ?st3 = "st2\<lparr>captured := captured st2 + 1,
                        nextCapture := js_add (nextCapture st2) (frameIntervalMs fps)\<rparr>"
        from Inr s1 have "frameSized (targetWidth width scale) (targetHeight height scale) st2"
          by (rule captureFrame_sized)
        then have s3: "frameSized (targetWidth width scale) (targetHeight height scale) ?st3"
          by (simp add: frameSized_def)
        from nd True Inr assms(1) have "st' = ?st3"
          using stepEnd_state[of duration fps now ?st3 st' e]
          by (simp add: step_def Let_def)
        with s3 show ?thesis by simp
      qed
    qed
  qed
qed

lemma samplingLoop_sized:
  "frameSized (targetWidth width scale) (targetHeight height scale) st \<Longrightarrow>
   frameSized (targetWidth width scale) (targetHeight height scale)
     (outcomeState (samplingLoop env width height duration fps scale st ticks))"
proof (induction ticks arbitrary: st)
  case Nil
  then show ?case by (simp add: outcomeState_def)
next
  case (Cons now rest)
  show ?case
  proof (cases "step env width height duration fps scale now st")
    case (Resolve st')
    with Cons.prems step_sized[of env width height duration fps scale now st st']
    show ?thesis by (simp add: outcomeState_def)
  next
    case (Reschedule st')
    with Cons.prems step_sized[of env width height duration fps scale now st st']
    have "frameSized (targetWidth width scale) (targetHeight height scale) st'" by simp
    with Cons.IH Reschedule show ?thesis by simp
  next
    case (Uncaught e st')
    with Cons.prems step_sized[of env width height duration fps scale now st st' e]
    show ?thesis by (simp add: outcomeState_def)
  qed
qed

lemma step_first_example:
  "step (exampleEnv 4 4) 4 4 (Fin (1/2)) (Fin 1) (Fin (1/10)) 0 initialLoopState =
   Resolve \<lparr>captured = 1, startTime = Fin 0, nextCapture = Fin 1000, frameIndex = 1,
     written = [\<lparr>frameWidth = Fin 1, frameHeight = Fin 1, frameDelay = Fin 1000,
                 frameRepeat = Some 0\<rparr>]\<rparr>"
  by (simp add: step_def stepEnd_def framesDone_def deadlineReached_def captureFrame_def
      initialLoopState_def exampleEnv_def frameCount_def frameIntervalMs_def delayMs_def
      sanitizedDuration_def sanitizedFps_def sanitizedScale_def targetWidth_def targetHeight_def
      Math_max_def Math_min_def js_ge_def js_sub_def round_def)

text \<open>
  Claim C8, as stated: every frame has \<open>round (width * scale)\<close> by
  \<open>round (height * scale)\<close> pixels. On a surface of 4 by 4 at scale 0.1 the rounded
  products are 0, and the frame written is 1 by 1: the code takes the maximum with 1.
\<close>

theorem C8_counterexample:
  "sanitizedScale (Fin (1/10)) = Fin (1/10) \<and>
   written (outcomeState (samplingLoop (exampleEnv 4 4) 4 4 (Fin (1/2)) (Fin 1) (Fin (1/10))
      initialLoopState [0])) =
     [\<lparr>frameWidth = Fin 1, frameHeight = Fin 1, frameDelay = Fin 1000, frameRepeat = Some 0\<rparr>] \<and>
   round (real 4 * (1/10)) = 0"
  by (simp add: step_first_example outcomeState_def sanitizedScale_def Math_max_def Math_min_def
      round_def)

text \<open>
  Claim C8, amended. For every call, whatever the ticks, each frame written has
  \<open>max 1 (round (width * s))\<close> by \<open>max 1 (round (height * s))\<close> pixels, where \<open>s\<close> is the
  effective scale and \<open>width\<close>, \<open>height\<close> are the surface dimensions read once, before the
  loop starts.
\<close>

theorem C8_frames_have_target_size:
  "\<forall>f \<in> set (written (outcomeState
        (samplingLoop env width height duration fps scale initialLoopState ticks))).
     frameWidth f = Fin (of_int (max 1 (round (real width * scaleOf scale)))) \<and>
     frameHeight f = Fin (of_int (max 1 (round (real height * scaleOf scale))))"
proof -
  have "frameSized (targetWidth width scale) (targetHeight height scale) initialLoopState"
    by (simp add: frameSized_def initialLoopState_def)
  then have "frameSized (targetWidth width scale) (targetHeight height scale)
     (outcomeState (samplingLoop env width height duration fps scale initialLoopState ticks))"
    by (rule samplingLoop_sized)
  then show ?thesis
    by (simp add: frameSized_def targetWidth_scaleOf targetHeight_scaleOf)
qed

theorem C8_witness:
  "\<exists>f. f \<in> set (written (outcomeState (samplingLoop (exampleEnv 640 480) 640 480
            (Fin (1/2)) (Fin 1) (Fin (1/2)) initialLoopState [0]))) \<and>
       frameWidth f = Fin 320 \<and> frameHeight f = Fin 240"
proof -
  let ?out = "samplingLoop (exampleEnv 640 480) 640 480 (Fin (1/2)) (Fin 1) (Fin (1/2))
                initialLoopState [0]"
  let ?f = "\<lparr>frameWidth = Fin 320, frameHeight = Fin 240, frameDelay = Fin 1000,
             frameRepeat = Some 0\<rparr>"
  have "step (exampleEnv 640 480) 640 480 (Fin (1/2)) (Fin 1) (Fin (1/2)) 0 initialLoopState =
     Resolve \<lparr>captured = 1, startTime = Fin 0, nextCapture = Fin 1000, frameIndex = 1,
       written = [?f]\<rparr>"
    by (simp add: step_def stepEnd_def framesDone_def deadlineReached_def captureFrame_def
      initialLoopState_def exampleEnv_def frameCount_def frameIntervalMs_def delayMs_def
      sanitizedDuration_def sanitizedFps_def sanitizedScale_def targetWidth_def targetHeight_def
      Math_max_def Math_min_def js_ge_def js_sub_def round_def)
  then have mem: "?f \<in> set (written (outcomeState ?out))"
    by (simp add: outcomeState_def)
  have s: "scaleOf (Fin (1/2)) = 1/2" by (simp add: scaleOf_def)
  from C8_frames_have_target_size
    [of "exampleEnv 640 480" 640 480 "Fin (1/2)" "Fin 1" "Fin (1/2)" "[0]"] mem
  have "frameWidth ?f = Fin (of_int (max 1 (round (real 640 * scaleOf (Fin (1/2)))))) \<and>
        frameHeight ?f = Fin (of_int (max 1 (round (real 480 * scaleOf (Fin (1/2))))))"
    by blast
  with mem s show ?thesis by (intro exI[of _ ?f]) simp
qed

subsection \<open>The finished encoding\<close>

text \<open>
  Claim C9. A call never fulfils its promise with an empty buffer; when the loop has
  resolved and the finished encoding has no bytes, the promise is rejected.
\<close>

theorem C9_empty_encoding_is_rejected:
  "captureGif env duration fps scale ticks \<noteq> Fulfilled [] \<and>
   (\<forall>width height st rest.
      canvasSize env = Some (width, height) \<and> glReady env \<and> fullCtxOk env \<and> scaledCtxOk env \<and>
      samplingLoop env width height duration fps scale initialLoopState ticks = Resolved st rest \<and>
      encoderBytes env (written st) = []
      \<longrightarrow> captureGif env duration fps scale ticks = Rejected GifEmpty)"
  by (auto simp add: captureGif_def Let_def split: option.splits loop_outcome.splits)

theorem C9_witness:
  "captureGif ((exampleEnv 4 4)\<lparr>encoderBytes := (\<lambda>fs. [])\<rparr>) (Fin (1/2)) (Fin 1) (Fin (1/10)) [0]
     = Rejected GifEmpty"
proof -
  let ?env = "(exampleEnv 4 4)\<lparr>encoderBytes := (\<lambda>fs. [])\<rparr>"
  let ?st = "\<lparr>captured = 1, startTime = Fin 0, nextCapture = Fin 1000, frameIndex = 1,
     written = [\<lparr>frameWidth = Fin 1, frameHeight = Fin 1, frameDelay = Fin 1000,
                 frameRepeat = Some 0\<rparr>]\<rparr>"
  have "step ?env 4 4 (Fin (1/2)) (Fin 1) (Fin (1/10)) 0 initialLoopState = Resolve ?st"
    by (simp add: step_def stepEnd_def framesDone_def deadlineReached_def captureFrame_def
      initialLoopState_def exampleEnv_def frameCount_def frameIntervalMs_def delayMs_def
      sanitizedDuration_def sanitizedFps_def sanitizedScale_def targetWidth_def targetHeight_def
      Math_max_def Math_min_def js_ge_def js_sub_def round_def)
  then have loop: "samplingLoop ?env 4 4 (Fin (1/2)) (Fin 1) (Fin (1/10)) initialLoopState [0]
      = Resolved ?st []"
    by simp
  have env: "canvasSize ?env = Some (4, 4) \<and> glReady ?env \<and> fullCtxOk ?env \<and> scaledCtxOk ?env \<and>
     encoderBytes ?env (written ?st) = []"
    by (simp add: exampleEnv_def)
  from C9_empty_encoding_is_rejected [of ?env "Fin (1/2)" "Fin 1" "Fin (1/10)" "[0]"] loop env
  show ?thesis by blast
qed

subsection \<open>Termination of the sampling loop\<close>

lemma framesDone_Fin: "framesDone (Fin d) (Fin f) st = (countOf d f \<le> captured st)"
  by (auto simp add: framesDone_def frameCount_Fin js_ge_def)

lemma deadline_Fin:
  "js_add (js_mul (sanitizedDuration (Fin d)) (Fin 1000)) (frameIntervalMs (Fin f))
     = Fin (deadlineOf d f)"
  by (simp add: sanitizedDuration_Fin frameIntervalMs_Fin deadlineOf_def)

lemma deadlineReached_Fin:
  "startTime st = Fin t0 \<Longrightarrow>
   deadlineReached (Fin d) (Fin f) now st = (deadlineOf d f \<le> now - t0)"
  by (auto simp add: deadlineReached_def deadline_Fin js_sub_def js_ge_def)

lemma intervalOf_pos: "0 < intervalOf f"
  using fpsOf_range[of f] by (simp add: intervalOf_def)

lemma deadlineOf_pos: "0 < deadlineOf d f"
proof -
  have "0 < durationOf d * 1000" by (simp add: durationOf_def)
  with intervalOf_pos[of f] show ?thesis by (simp add: deadlineOf_def)
qed

lemma captureFrame_fits:
  "indexDataFits env width height scale \<Longrightarrow>
   captureFrame env width height fps scale st =
     Inr (st\<lparr>written := written st @
                [\<lparr>frameWidth = targetWidth width scale, frameHeight = targetHeight height scale,
                  frameDelay = delayMs fps,
                  frameRepeat = (if frameIndex st = 0 then Some 0 else None)\<rparr>],
              frameIndex := frameIndex st + 1\<rparr>)"
  by (simp add: captureFrame_def indexDataFits_def)

lemma step_running_cases:
  assumes run: "running d f t0 st" and fits: "indexDataFits env width height scale"
  shows "(\<exists>st'. step env width height (Fin d) (Fin f) scale now st = Resolve st' \<and>
            captured st \<le> captured st' \<and> captured st' \<le> captured st + 1 \<and>
            captured st' \<le> countOf d f \<and> length (written st') = captured st' \<and>
            (captured st' = countOf d f \<or> deadlineOf d f \<le> now - t0)) \<or>
         (\<exists>st'. step env width height (Fin d) (Fin f) scale now st = Reschedule st' \<and>
            running d f t0 st' \<and> captured st \<le> captured st' \<and>
            captured st' \<le> captured st + 1 \<and> now - t0 < deadlineOf d f)"
proof -
  from run obtain nc where nc: "nextCapture st = Fin nc"
    by (cases "nextCapture st") (auto simp add: running_def)
  from run have st0: "startTime st = Fin t0" and c1: "1 \<le> captured st"
    and cN: "captured st < countOf d f" and len: "length (written st) = captured st"
    by (simp_all add: running_def)
  have nd: "\<not> framesDone (Fin d) (Fin f) st" using cN by (simp add: framesDone_Fin)
  have c0: "captured st \<noteq> 0" using c1 by simp
  show ?thesis
  proof (cases "nc \<le> now")
    case False
    then have nge: "\<not> js_ge (Fin now) (nextCapture st)" by (simp add: nc js_ge_def)
    have stp: "step env width height (Fin d) (Fin f) scale now st = stepEnd (Fin d) (Fin f) now st"
      using nd c0 nge by (simp add: step_def Let_def)
    show ?thesis
    proof (cases "deadlineOf d f \<le> now - t0")
      case True
      then have "stepEnd (Fin d) (Fin f) now st = Resolve st"
        using st0 by (simp add: stepEnd_def deadlineReached_Fin)
      with stp True cN len show ?thesis by simp
    next
      case False
      then have "stepEnd (Fin d) (Fin f) now st = Reschedule st"
        using st0 nd by (simp add: stepEnd_def deadlineReached_Fin)
      with stp False run show ?thesis by simp
    qed
  next
    case True
    then have ge: "js_ge (Fin now) (nextCapture st)" by (simp add: nc js_ge_def)
    let ?st3 = "st\<lparr>written := written st @
                [\<lparr>frameWidth = targetWidth width scale, frameHeight = targetHeight height scale,
                  frameDelay = delayMs (Fin f),
                  frameRepeat = (if frameIndex st = 0 then Some 0 else None)\<rparr>],
              frameIndex := frameIndex st + 1,
              captured := captured st + 1,
              nextCapture := Fin (nc + intervalOf f)\<rparr>"
    have stp: "step env width height (Fin d) (Fin f) scale now st = stepEnd (Fin d) (Fin f) now ?st3"
      using nd c0 ge by (simp add: step_def Let_def captureFrame_fits[OF fits] nc frameIntervalMs_Fin)
    have st3: "startTime ?st3 = Fin t0" "captured ?st3 = captured st + 1"
      "length (written ?st3) = captured ?st3" "Number_isFinite (nextCapture ?st3)"
      using st0 len by simp_all
    show ?thesis
    proof (cases "countOf d f \<le> captured st + 1 \<or> deadlineOf d f \<le> now - t0")
      case True
      then have "stepEnd (Fin d) (Fin f) now ?st3 = Resolve ?st3"
        using st3 by (simp add: stepEnd_def deadlineReached_Fin framesDone_Fin)
      moreover have "captured ?st3 \<le> countOf d f" using cN by simp
      moreover have "captured ?st3 = countOf d f \<or> deadlineOf d f \<le> now - t0"
        using True cN by auto
      ultimately show ?thesis using stp st3 by (intro disjI1 exI[of _ ?st3]) simp
    next
      case False
      then have "stepEnd (Fin d) (Fin f) now ?st3 = Reschedule ?st3"
        using st3 by (simp add: stepEnd_def deadlineReached_Fin framesDone_Fin)
      moreover have "running d f t0 ?st3"
        using False st3 c1 by (simp add: running_def)
      ultimately show ?thesis using stp st3 False by (intro disjI2 exI[of _ ?st3]) simp
    qed
  qed
qed

lemma loop_running:
  assumes fits: "indexDataFits env width height scale"
  shows "running d f t0 st \<Longrightarrow> \<exists>t \<in> set ticks. deadlineOf d f \<le> t - t0 \<Longrightarrow>
     \<exists>st' n. 0 < n \<and> n \<le> length ticks \<and>
       samplingLoop env width height (Fin d) (Fin f) scale st ticks = Resolved st' (drop n ticks) \<and>
       captured st \<le> captured st' \<and> captured st' \<le> captured st + n \<and>
       captured st' \<le> countOf d f \<and> length (written st') = captured st' \<and>
       (captured st' = countOf d f \<or> deadlineOf d f \<le> ticks ! (n - 1) - t0) \<and>
       (\<forall>k<n. \<exists>s. samplingLoop env width height (Fin d) (Fin f) scale st (take k ticks)
                    = AwaitingTick s \<and> captured s < countOf d f \<and>
                  (0 < k \<longrightarrow> ticks ! (k - 1) - t0 < deadlineOf d f))"
proof (induction ticks arbitrary: st)
  case Nil
  then show ?case by simp
next
  case (Cons now rest)
  from step_running_cases[OF Cons.prems(1) fits, of now]
  consider
    (res) st' where "step env width height (Fin d) (Fin f) scale now st = Resolve st'"
      "captured st \<le> captured st'" "captured st' \<le> captured st + 1"
      "captured st' \<le> countOf d f" "length (written st') = captured st'"
      "captured st' = countOf d f \<or> deadlineOf d f \<le> now - t0"
  | (again) st' where "step env width height (Fin d) (Fin f) scale now st = Reschedule st'"
      "running d f t0 st'" "captured st \<le> captured st'"
      "captured st' \<le> captured st + 1" "now - t0 < deadlineOf d f"
    by blast
  then show ?case
  proof cases
    case res
    have cN: "captured st < countOf d f" using Cons.prems(1) by (simp add: running_def)
    have "\<forall>k<(1::nat). \<exists>s. samplingLoop env width height (Fin d) (Fin f) scale st (take k (now # rest))
                    = AwaitingTick s \<and> captured s < countOf d f \<and>
                  (0 < k \<longrightarrow> (now # rest) ! (k - 1) - t0 < deadlineOf d f)"
      using cN by simp
    with res show ?thesis
      by (intro exI[of _ st'] exI[of _ "1::nat"]) simp
  next
    case again
    from Cons.prems(2) again(5) have "\<exists>t \<in> set rest. deadlineOf d f \<le> t - t0"
      by auto
    from Cons.IH[OF again(2) this]
    obtain st'' n where ih: "0 < n" "n \<le> length rest"
      "samplingLoop env width height (Fin d) (Fin f) scale st' rest = Resolved st'' (drop n rest)"
      "captured st' \<le> captured st''" "captured st'' \<le> captured st' + n"
      "captured st'' \<le> countOf d f" "length (written st'') = captured st''"
      "captured st'' = countOf d f \<or> deadlineOf d f \<le> rest ! (n - 1) - t0"
      "\<forall>k<n. \<exists>s. samplingLoop env width height (Fin d) (Fin f) scale st' (take k rest)
                    = AwaitingTick s \<and> captured s < countOf d f \<and>
                  (0 < k \<longrightarrow> rest ! (k - 1) - t0 < deadlineOf d f)"
      by blast
    have cN: "captured st < countOf d f" using Cons.prems(1) by (simp add: running_def)
    have nth: "(now # rest) ! (Suc n - 1) = rest ! (n - 1)"
      using ih(1) by (cases n) simp_all
    have pre: "\<exists>s. samplingLoop env width height (Fin d) (Fin f) scale st (take k (now # rest))
                    = AwaitingTick s \<and> captured s < countOf d f \<and>
                  (0 < k \<longrightarrow> (now # rest) ! (k - 1) - t0 < deadlineOf d f)"
      if k: "k < Suc n" for k
    proof (cases k)
      case 0
      with cN show ?thesis by simp
    next
      case (Suc k')
      with k have "k' < n" by simp
      with ih(9) obtain s where s:
        "samplingLoop env width height (Fin d) (Fin f) scale st' (take k' rest) = AwaitingTick s"
        "captured s < countOf d f" "0 < k' \<longrightarrow> rest ! (k' - 1) - t0 < deadlineOf d f"
        by blast
      have "(now # rest) ! (k - 1) - t0 < deadlineOf d f"
      proof (cases k')
        case 0
        with Suc again(5) show ?thesis by simp
      next
        case (Suc k'')
        with s(3) \<open>k = Suc k'\<close> show ?thesis by simp
      qed
      with s Suc again(1) show ?thesis by simp
    qed
    have "samplingLoop env width height (Fin d) (Fin f) scale st (now # rest)
            = Resolved st'' (drop (Suc n) (now # rest))"
      using again(1) ih(3) by simp
    moreover have "captured st \<le> captured st''" using again(3) ih(4) by simp
    moreover have "captured st'' \<le> captured st + Suc n" using again(4) ih(5) by simp
    moreover have "captured st'' = countOf d f \<or> deadlineOf d f \<le> (now # rest) ! (Suc n - 1) - t0"
      using ih(8) nth by simp
    ultimately show ?thesis
      using ih(2,6,7) pre
      by (intro exI[of _ st''] exI[of _ "Suc n"]) simp
  qed
qed

lemma step_initial:
  assumes fits: "indexDataFits env width height scale"
  shows "step env width height (Fin d) (Fin f) scale now initialLoopState =
     (if countOf d f \<le> 1
      then Resolve \<lparr>captured = 1, startTime = Fin now, nextCapture = Fin (now + intervalOf f),
             frameIndex = 1,
             written = [\<lparr>frameWidth = targetWidth width scale,
                         frameHeight = targetHeight height scale,
                         frameDelay = delayMs (Fin f), frameRepeat = Some 0\<rparr>]\<rparr>
      else Reschedule \<lparr>captured = 1, startTime = Fin now, nextCapture = Fin (now + intervalOf f),
             frameIndex = 1,
             written = [\<lparr>frameWidth = targetWidth width scale,
                         frameHeight = targetHeight height scale,
                         frameDelay = delayMs (Fin f), frameRepeat = Some 0\<rparr>]\<rparr>)"
proof -
  have nd: "\<not> framesDone (Fin d) (Fin f) initialLoopState"
    using countOf_pos[of d f] by (simp add: framesDone_Fin initialLoopState_def)
  have dl: "\<not> deadlineOf d f \<le> 0" using deadlineOf_pos[of d f] by simp
  show ?thesis
    using nd dl
    by (simp add: step_def Let_def initialLoopState_def js_ge_def captureFrame_fits[OF fits]
        frameIntervalMs_Fin stepEnd_def framesDone_Fin deadlineReached_Fin)
qed

text \<open>
  The first tick always takes a capture step. When the index data does not fit, its
  exception ends the loop there, with the promise unsettled.
\<close>

lemma frameCount_not_reached_at_start: "\<not> framesDone duration fps initialLoopState"
proof -
  let ?x = "Math_round (js_mul (sanitizedDuration duration) (sanitizedFps fps))"
  have "\<not> js_ge (Fin 0) (Math_max (Fin 1) ?x)"
    by (cases ?x) (simp_all add: Math_max_def js_ge_def)
  then show ?thesis
    by (simp add: framesDone_def frameCount_def initialLoopState_def)
qed

lemma first_tick_crash:
  assumes "\<not> indexDataFits env width height scale"
  shows "samplingLoop env width height duration fps scale initialLoopState (now # rest) =
     Crashed IndexedFrameLength (initialLoopState\<lparr>startTime := Fin now, nextCapture := Fin now\<rparr>)"
  using assms frameCount_not_reached_at_start[of duration fps]
  by (simp add: step_def Let_def captureFrame_def indexDataFits_def js_ge_def initialLoopState_def)

text \<open>
  Ticks that stay below the next due instant and below the time bound leave the loop
  waiting: it resolves only if the timestamps go on. Hence the condition on the ticks in
  the statement of termination below.
\<close>

lemma step_waits:
  assumes "running d f t0 st" and "nextCapture st = Fin nc" and "now < nc"
    and "now - t0 < deadlineOf d f"
  shows "step env width height (Fin d) (Fin f) scale now st = Reschedule st"
proof -
  from assms(1) have st0: "startTime st = Fin t0" and c1: "captured st \<noteq> 0"
    and cN: "captured st < countOf d f"
    by (simp_all add: running_def)
  have nd: "\<not> framesDone (Fin d) (Fin f) st" using cN by (simp add: framesDone_Fin)
  have nge: "\<not> js_ge (Fin now) (nextCapture st)" using assms(2,3) by (simp add: js_ge_def)
  have "stepEnd (Fin d) (Fin f) now st = Reschedule st"
    using nd st0 assms(4) by (simp add: stepEnd_def deadlineReached_Fin)
  with nd c1 nge show ?thesis by (simp add: step_def Let_def)
qed

lemma stalled_ticks_never_resolve:
  assumes "running d f t0 st" and "nextCapture st = Fin nc"
    and "\<forall>t \<in> set ticks. t < nc \<and> t - t0 < deadlineOf d f"
  shows "samplingLoop env width height (Fin d) (Fin f) scale st ticks = AwaitingTick st"
  using assms(3)
proof (induction ticks)
  case Nil
  then show ?case by simp
next
  case (Cons now rest)
  then have "step env width height (Fin d) (Fin f) scale now st = Reschedule st"
    using step_waits[OF assms(1,2), of now] by simp
  with Cons show ?case by simp
qed

text \<open>
  Claim C1, as stated: the loop stops as soon as \<open>frameCount\<close> frames are captured or the
  time since its first tick exceeds \<open>sanitizedDuration * 1000 + frameIntervalMs\<close>. With
  duration 3 and rate 1 (3 frames, bound 4000 ms) and ticks at 0, 4000, 5000 the loop
  resolves at the second tick with 2 frames, the elapsed time being equal to the bound,
  not above it: the test of the code is \<open>>=\<close>.
\<close>

theorem C1_counterexample:
  "frameCount (Fin 3) (Fin 1) = Fin 3 \<and>
   js_add (js_mul (sanitizedDuration (Fin 3)) (Fin 1000)) (frameIntervalMs (Fin 1)) = Fin 4000 \<and>
   samplingLoop (exampleEnv 4 4) 4 4 (Fin 3) (Fin 1) (Fin 1) initialLoopState [0, 4000, 5000] =
     Resolved \<lparr>captured = 2, startTime = Fin 0, nextCapture = Fin 2000, frameIndex = 2,
        written = [\<lparr>frameWidth = Fin 4, frameHeight = Fin 4, frameDelay = Fin 1000,
                     frameRepeat = Some 0\<rparr>,
                   \<lparr>frameWidth = Fin 4, frameHeight = Fin 4, frameDelay = Fin 1000,
                     frameRepeat = None\<rparr>]\<rparr> [5000] \<and>
   \<not> js_ge (Fin 2) (frameCount (Fin 3) (Fin 1)) \<and>
   \<not> ((4000::real) - 0 > 4000)"
  by (simp add: step_def stepEnd_def framesDone_def deadlineReached_def captureFrame_def
      initialLoopState_def exampleEnv_def frameCount_def frameIntervalMs_def delayMs_def
      sanitizedDuration_def sanitizedFps_def sanitizedScale_def targetWidth_def targetHeight_def
      Math_max_def Math_min_def js_ge_def js_sub_def)

text \<open>
  Claim C1, amended. For every call with a finite duration and a finite rate whose capture
  steps succeed, and every sequence of ticks (increasing or not) of which one lies at
  least \<open>sanitizedDuration * 1000 + frameIntervalMs\<close> after the first: the loop resolves
  after finitely many ticks \<open>n\<close>; it has then captured at least one frame, at most one per
  tick and at most \<open>frameCount = max 1 (round (sanitizedDuration * sanitizedFps))\<close>; it
  stops at the first tick at which either \<open>frameCount\<close> frames are captured or the time
  since the first tick has reached that bound (at every earlier tick neither holds and
  the loop waits for the next tick). For duration 0.5 and rate 60 the count is between 1
  and \<open>round (0.5 * 60) + 1\<close>.
\<close>

theorem C1_sampling_loop_stops:
  assumes "indexDataFits env width height scale"
    and "\<exists>t \<in> set ticks. deadlineOf d f \<le> t - hd ticks"
  shows "frameCount (Fin d) (Fin f) = Fin (real (countOf d f)) \<and>
     js_add (js_mul (sanitizedDuration (Fin d)) (Fin 1000)) (frameIntervalMs (Fin f))
       = Fin (deadlineOf d f) \<and>
     (\<exists>st n. 0 < n \<and> n \<le> length ticks \<and>
       samplingLoop env width height (Fin d) (Fin f) scale initialLoopState ticks
         = Resolved st (drop n ticks) \<and>
       1 \<le> captured st \<and> captured st \<le> n \<and> captured st \<le> countOf d f \<and>
       length (written st) = captured st \<and>
       (captured st = countOf d f \<or> deadlineOf d f \<le> ticks ! (n - 1) - hd ticks) \<and>
       (\<forall>k. 0 < k \<and> k < n \<longrightarrow>
          (\<exists>s. samplingLoop env width height (Fin d) (Fin f) scale initialLoopState (take k ticks)
                 = AwaitingTick s \<and> captured s < countOf d f \<and>
               ticks ! (k - 1) - hd ticks < deadlineOf d f)))"
proof -
  from assms(2) obtain t0 rest where ticks: "ticks = t0 # rest"
    by (cases ticks) auto
  let ?st1 = "\<lparr>captured = 1, startTime = Fin t0, nextCapture = Fin (t0 + intervalOf f),
             frameIndex = 1,
             written = [\<lparr>frameWidth = targetWidth width scale,
                         frameHeight = targetHeight height scale,
                         frameDelay = delayMs (Fin f), frameRepeat = Some 0\<rparr>]\<rparr>"
  note first = step_initial[OF assms(1), of d f t0]
  have loop: "\<exists>st n. 0 < n \<and> n \<le> length ticks \<and>
       samplingLoop env width height (Fin d) (Fin f) scale initialLoopState ticks
         = Resolved st (drop n ticks) \<and>
       1 \<le> captured st \<and> captured st \<le> n \<and> captured st \<le> countOf d f \<and>
       length (written st) = captured st \<and>
       (captured st = countOf d f \<or> deadlineOf d f \<le> ticks ! (n - 1) - hd ticks) \<and>
       (\<forall>k. 0 < k \<and> k < n \<longrightarrow>
          (\<exists>s. samplingLoop env width height (Fin d) (Fin f) scale initialLoopState (take k ticks)
                 = AwaitingTick s \<and> captured s < countOf d f \<and>
               ticks ! (k - 1) - hd ticks < deadlineOf d f))"
  proof (cases "countOf d f \<le> 1")
    case True
    with countOf_pos[of d f] have one: "countOf d f = 1" by simp
    from True first
    have "samplingLoop env width height (Fin d) (Fin f) scale initialLoopState ticks
            = Resolved ?st1 (drop 1 ticks)"
      by (simp add: ticks)
    with one show ?thesis
      by (intro exI[of _ ?st1] exI[of _ "1::nat"]) (simp add: ticks)
  next
    case False
    with first have stp: "step env width height (Fin d) (Fin f) scale t0 initialLoopState
        = Reschedule ?st1" by simp
    have run: "running d f t0 ?st1" using False by (simp add: running_def)
    have "\<exists>t \<in> set rest. deadlineOf d f \<le> t - t0"
      using assms(2) deadlineOf_pos[of d f] by (auto simp add: ticks)
    from loop_running[OF assms(1) run this]
    obtain st' n where ih: "0 < n" "n \<le> length rest"
      "samplingLoop env width height (Fin d) (Fin f) scale ?st1 rest = Resolved st' (drop n rest)"
      "captured ?st1 \<le> captured st'" "captured st' \<le> captured ?st1 + n"
      "captured st' \<le> countOf d f" "length (written st') = captured st'"
      "captured st' = countOf d f \<or> deadlineOf d f \<le> rest ! (n - 1) - t0"
      "\<forall>k<n. \<exists>s. samplingLoop env width height (Fin d) (Fin f) scale ?st1 (take k rest)
                    = AwaitingTick s \<and> captured s < countOf d f \<and>
                  (0 < k \<longrightarrow> rest ! (k - 1) - t0 < deadlineOf d f)"
      by blast
    have nth: "(t0 # rest) ! (Suc n - 1) = rest ! (n - 1)"
      using ih(1) by (cases n) simp_all
    have pre: "\<exists>s. samplingLoop env width height (Fin d) (Fin f) scale initialLoopState
                    (take k (t0 # rest)) = AwaitingTick s \<and> captured s < countOf d f \<and>
                  (t0 # rest) ! (k - 1) - t0 < deadlineOf d f"
      if k: "0 < k" "k < Suc n" for k
    proof -
      from k obtain k' where k': "k = Suc k'" "k' < n" by (cases k) auto
      with ih(9) obtain s where s:
        "samplingLoop env width height (Fin d) (Fin f) scale ?st1 (take k' rest) = AwaitingTick s"
        "captured s < countOf d f" "0 < k' \<longrightarrow> rest ! (k' - 1) - t0 < deadlineOf d f"
        by blast
      have "(t0 # rest) ! (k - 1) - t0 < deadlineOf d f"
      proof (cases k')
        case 0
        with k'(1) deadlineOf_pos[of d f] show ?thesis by simp
      next
        case (Suc k'')
        with s(3) k'(1) show ?thesis by simp
      qed
      with s k'(1) stp show ?thesis by simp
    qed
    have "samplingLoop env width height (Fin d) (Fin f) scale initialLoopState (t0 # rest)
            = Resolved st' (drop (Suc n) (t0 # rest))"
      using stp ih(3) by simp
    moreover have "1 \<le> captured st'" "captured st' \<le> Suc n" using ih(4,5) by simp_all
    moreover have "captured st' = countOf d f \<or>
        deadlineOf d f \<le> (t0 # rest) ! (Suc n - 1) - hd (t0 # rest)"
      using ih(8) nth by simp
    ultimately show ?thesis
      unfolding ticks using ih(2,6,7) pre
      by (intro exI[of _ st'] exI[of _ "Suc n"]) simp
  qed
  from frameCount_Fin[of d f] deadline_Fin[of d f] loop show ?thesis by blast
qed

lemma exampleEnv_fits: "indexDataFits (exampleEnv 4 4) 4 4 (Fin 1)"
  by (simp add: indexDataFits_def exampleEnv_def targetWidth_scaleOf targetHeight_scaleOf
      scaleOf_def)

theorem C1_witness:
  "\<exists>st n. samplingLoop (exampleEnv 4 4) 4 4 (Fin (1/2)) (Fin 60) (Fin 1) initialLoopState
              [0, 100, 200, 300, 400, 500, 600]
            = Resolved st (drop n [0, 100, 200, 300, 400, 500, 600]) \<and>
          1 \<le> captured st \<and> captured st \<le> n \<and> captured st \<le> nat (round (1/2 * 60 :: real)) + 1"
proof -
  have dl: "\<exists>t \<in> set [0, 100, 200, 300, 400, 500, 600 :: real].
      deadlineOf (1/2) 60 \<le> t - hd [0, 100, 200, 300, 400, 500, 600]"
    by (simp add: deadlineOf_def durationOf_def intervalOf_def fpsOf_def)
  have cnt: "countOf (1/2) 60 = 30"
    by (simp add: countOf_def durationOf_def fpsOf_def)
  from C1_sampling_loop_stops [OF exampleEnv_fits dl]
  obtain st n where
    "samplingLoop (exampleEnv 4 4) 4 4 (Fin (1/2)) (Fin 60) (Fin 1) initialLoopState
              [0, 100, 200, 300, 400, 500, 600]
            = Resolved st (drop n [0, 100, 200, 300, 400, 500, 600])"
    "1 \<le> captured st" "captured st \<le> n" "captured st \<le> countOf (1/2) 60"
    by blast
  with cnt show ?thesis
    by (intro exI[of _ st] exI[of _ n]) simp
qed

section \<open>Properties of the render loop\<close>

lemma render_time: "locTime uniforms \<Longrightarrow> uTime (render uniforms refs time u) = time * 0.001"
  by (simp add: render_def Let_def)

lemma renderLoop_times:
  "locTime uniforms \<Longrightarrow>
   map uTime (renderLoop uniforms u ticks) = map (\<lambda>tick. fst tick * 0.001) ticks"
proof (induction ticks arbitrary: u)
  case Nil
  then show ?case by simp
next
  case (Cons tick rest)
  obtain time refs where t: "tick = (time, refs)" by (cases tick)
  with Cons show ?case by (simp add: render_time)
qed

text \<open>
  Claim C7, as stated: the time pushed at a tick is the time in seconds since this loop
  instance started, beginning at zero again after a new initialisation. An instance whose
  first tick carries the timestamp 5000 ms pushes 5 and then 5.016, not 0 and 0.016.
\<close>

theorem C7_counterexample:
  "map uTime (renderLoop exampleLocations exampleUniforms [(5000, exampleRefs), (5016, exampleRefs)])
     = [5, 627/125] \<and>
   map uTime (renderLoop exampleLocations exampleUniforms [(5000, exampleRefs), (5016, exampleRefs)])
     \<noteq> [(5000 - 5000) * 0.001, (5016 - 5000) * 0.001]"
  by (simp add: render_def exampleLocations_def exampleRefs_def exampleUniforms_def)

text \<open>
  Claim C7, amended. On every render tick the value pushed to the time uniform is the
  timestamp of the tick in seconds (the timestamp times 0.001), whenever the loop instance
  was started; it does not decrease when the timestamps do not; nothing in the loop sets
  it back to zero.
\<close>

theorem C7_pushed_time_is_host_timestamp:
  assumes "locTime uniforms"
  shows "map uTime (renderLoop uniforms u ticks) = map (\<lambda>tick. fst tick * 0.001) ticks \<and>
         (sorted (map fst ticks) \<longrightarrow> sorted (map uTime (renderLoop uniforms u ticks)))"
proof -
  have a: "map uTime (renderLoop uniforms u ticks) = map (\<lambda>tick. fst tick * 0.001) ticks"
    using assms by (rule renderLoop_times)
  have "sorted (map fst ticks) \<longrightarrow> sorted (map (\<lambda>tick. fst tick * 0.001) ticks)"
    by (induction ticks) auto
  with a show ?thesis by simp
qed

theorem C7_witness:
  "locTime exampleLocations \<and>
   map uTime (renderLoop exampleLocations exampleUniforms [(1000, exampleRefs), (1016, exampleRefs)])
     = [1, 127/125] \<and>
   sorted (map uTime (renderLoop exampleLocations exampleUniforms [(1000, exampleRefs), (1016, exampleRefs)]))"
proof -
  have l: "locTime exampleLocations" by (simp add: exampleLocations_def)
  from C7_pushed_time_is_host_timestamp [OF l, of exampleUniforms "[(1000, exampleRefs), (1016, exampleRefs)]"] l
  show ?thesis by simp
qed

end
